theory Spec2Isabelle
  imports Main
begin

section \<open>Python strings\<close>

text \<open>
  A Python \<open>str\<close> is modelled as a \<^typ>\<open>string\<close> whose characters are the code points
  \<open>0 .. 255\<close>; \<open>len\<close> is \<^const>\<open>length\<close> and slicing \<open>s[:n]\<close> is \<^const>\<open>take\<close>.
  The character classes below are those of Python 3 on that range.
\<close>

definition ord :: "char \<Rightarrow> nat" where
  "ord c = of_char c"

definition dquote :: char where
  "dquote = CHR 0x22"

definition backslash :: char where
  "backslash = CHR 0x5C"

definition newline :: char where
  "newline = CHR 0x0A"

definition carriage_return :: char where
  "carriage_return = CHR 0x0D"

definition tab :: char where
  "tab = CHR 0x09"

text \<open>\<open>str.isspace\<close>: the characters removed by \<open>strip()\<close> and separating \<open>split()\<close>.\<close>

definition is_space :: "char \<Rightarrow> bool" where
  "is_space c = (let n = ord c in
     (9 \<le> n \<and> n \<le> 13) \<or> (28 \<le> n \<and> n \<le> 32) \<or> n = 0x85 \<or> n = 0xA0)"

definition is_upper :: "char \<Rightarrow> bool" where
  "is_upper c = (let n = ord c in 65 \<le> n \<and> n \<le> 90)"

definition is_lower :: "char \<Rightarrow> bool" where
  "is_lower c = (let n = ord c in 97 \<le> n \<and> n \<le> 122)"

definition is_digit :: "char \<Rightarrow> bool" where
  "is_digit c = (let n = ord c in 48 \<le> n \<and> n \<le> 57)"

text \<open>The regular-expression class \<open>\w\<close> of a \<open>str\<close> pattern: alphanumeric or underscore.\<close>

definition is_word :: "char \<Rightarrow> bool" where
  "is_word c = (let n = ord c in
     is_upper c \<or> is_lower c \<or> is_digit c \<or> n = 95 \<or>
     n = 0xAA \<or> n = 0xB2 \<or> n = 0xB3 \<or> n = 0xB5 \<or> n = 0xB9 \<or> n = 0xBA \<or>
     (0xBC \<le> n \<and> n \<le> 0xBE) \<or> (0xC0 \<le> n \<and> n \<le> 0xD6) \<or>
     (0xD8 \<le> n \<and> n \<le> 0xF6) \<or> 0xF8 \<le> n)"

definition startswith :: "string \<Rightarrow> string \<Rightarrow> bool" where
  "startswith s p = (take (length p) s = p)"

definition lstrip_by :: "(char \<Rightarrow> bool) \<Rightarrow> string \<Rightarrow> string" where
  "lstrip_by P s = dropWhile P s"

definition rstrip_by :: "(char \<Rightarrow> bool) \<Rightarrow> string \<Rightarrow> string" where
  "rstrip_by P s = rev (dropWhile P (rev s))"

definition strip_by :: "(char \<Rightarrow> bool) \<Rightarrow> string \<Rightarrow> string" where
  "strip_by P s = lstrip_by P (rstrip_by P s)"

text \<open>\<open>s.strip()\<close>, \<open>s.strip(chars)\<close> and \<open>s.rstrip(chars)\<close>.\<close>

definition strip :: "string \<Rightarrow> string" where
  "strip s = strip_by is_space s"

definition strip_chars :: "string \<Rightarrow> string \<Rightarrow> string" where
  "strip_chars chars s = strip_by (\<lambda>c. c \<in> set chars) s"

definition rstrip_chars :: "string \<Rightarrow> string \<Rightarrow> string" where
  "rstrip_chars chars s = rstrip_by (\<lambda>c. c \<in> set chars) s"

text \<open>\<open>s.split(sep)\<close> for a one-character separator: always at least one field.\<close>

fun split_on :: "char \<Rightarrow> string \<Rightarrow> string list" where
  "split_on sep [] = [[]]"
| "split_on sep (c # cs) =
     (if c = sep then [] # split_on sep cs
      else (case split_on sep cs of
              [] \<Rightarrow> [[c]]
            | w # ws \<Rightarrow> (c # w) # ws))"

text \<open>\<open>s.split()\<close>: the maximal runs of non-space characters; \<open>acc\<close> is the run being read,
  reversed.\<close>

fun split_ws_from :: "string \<Rightarrow> string \<Rightarrow> string list" where
  "split_ws_from acc [] = (if acc = [] then [] else [rev acc])"
| "split_ws_from acc (c # cs) =
     (if is_space c then (if acc = [] then [] else [rev acc]) @ split_ws_from [] cs
      else split_ws_from (c # acc) cs)"

definition split_ws :: "string \<Rightarrow> string list" where
  "split_ws s = split_ws_from [] s"

text \<open>\<open>sep.join(xs)\<close>.\<close>

fun join :: "string \<Rightarrow> string list \<Rightarrow> string" where
  "join sep [] = []"
| "join sep [x] = x"
| "join sep (x # y # ys) = x @ sep @ join sep (y # ys)"

text \<open>\<open>s.replace(old, new)\<close>: non-overlapping occurrences, left to right; an empty \<open>old\<close>
  matches before every character and at the end.\<close>

function replace :: "string \<Rightarrow> string \<Rightarrow> string \<Rightarrow> string" where
  "replace old new s =
     (if old = [] then new @ concat (map (\<lambda>c. c # new) s)
      else if s = [] then []
      else if startswith s old then new @ replace old new (drop (length old) s)
      else hd s # replace old new (tl s))"
  by pat_completeness auto
termination
  by (relation "measure (\<lambda>(old, new, s). length s)") auto

declare replace.simps [simp del]

text \<open>Decimal rendering of an integer, as an f-string does.\<close>

definition digit_char :: "nat \<Rightarrow> char" where
  "digit_char d = char_of (48 + d)"

function show_nat :: "nat \<Rightarrow> string" where
  "show_nat n = (if n < 10 then [digit_char n] else show_nat (n div 10) @ [digit_char (n mod 10)])"
  by pat_completeness auto
termination
  by (relation "measure id") auto

declare show_nat.simps [simp del]

definition show_int :: "int \<Rightarrow> string" where
  "show_int i = (if i < 0 then CHR ''-'' # show_nat (nat (- i)) else show_nat (nat i))"

text \<open>\<open>urllib.parse.quote\<close> with its default \<open>safe='/'\<close>: letters, digits and \<open>_.-~/\<close> are
  kept, every other character is UTF-8 encoded and each byte written as \<open>%XX\<close>.\<close>

definition hex_char :: "nat \<Rightarrow> char" where
  "hex_char d = (if d < 10 then char_of (48 + d) else char_of (55 + d))"

definition percent_byte :: "nat \<Rightarrow> string" where
  "percent_byte b = [CHR ''%'', hex_char (b div 16), hex_char (b mod 16)]"

definition quote_safe :: "char \<Rightarrow> bool" where
  "quote_safe c = (is_upper c \<or> is_lower c \<or> is_digit c \<or> c \<in> set ''_.-~/'')"

definition quote_char :: "char \<Rightarrow> string" where
  "quote_char c = (let n = ord c in
     if quote_safe c then [c]
     else if n < 128 then percent_byte n
     else percent_byte (192 + n div 64) @ percent_byte (128 + n mod 64))"

definition quote :: "string \<Rightarrow> string" where
  "quote s = concat (map quote_char s)"


section \<open>The graph builder\<close>

definition NAMESPACE_BASE :: string where
  "NAMESPACE_BASE = ''http://graph-rag.example.com/''"

definition NAMESPACE_DOC :: string where
  "NAMESPACE_DOC = NAMESPACE_BASE @ ''document/''"

definition NAMESPACE_ENTITY :: string where
  "NAMESPACE_ENTITY = NAMESPACE_BASE @ ''entity/''"

definition NAMESPACE_ONTO :: string where
  "NAMESPACE_ONTO = NAMESPACE_BASE @ ''ontology/''"

text \<open>A triple dictionary \<open>{'subject': .., 'predicate': .., 'object': ..}\<close>.\<close>

record triple =
  subject :: string
  predicate :: string
  object :: string

text \<open>A chunk dictionary; \<open>None\<close> is an absent key, for which the builder reads the default of
  its \<open>chunk.get\<close> call.\<close>

record chunk =
  chunkId :: "int option"
  chunk_text :: "string option"
  startPosition :: "int option"
  chunk_length :: "int option"

record metadata =
  keywords_field :: "string option"
  documentType :: "string option"
  author :: "string option"

text \<open>Truth value of \<open>metadata.get(key)\<close>: the key is present and its string is not empty.\<close>

definition truthy :: "string option \<Rightarrow> bool" where
  "truthy v = (case v of None \<Rightarrow> False | Some s \<Rightarrow> s \<noteq> [])"

definition escape_literal :: "string \<Rightarrow> string" where
  "escape_literal t =
     replace [tab] [backslash, CHR ''t'']
       (replace [carriage_return] [backslash, CHR ''r'']
         (replace [newline] [backslash, CHR ''n'']
           (replace [dquote] [backslash, dquote]
             (replace [backslash] [backslash, backslash] t))))"

text \<open>\<open>f'"{s}"'\<close> and \<open>f'"{s}"^^xsd:...'\<close>.\<close>

definition quoted :: "string \<Rightarrow> string" where
  "quoted s = dquote # s @ [dquote]"

definition typed_literal :: "string \<Rightarrow> string \<Rightarrow> string" where
  "typed_literal s ty = quoted s @ ''^^'' @ ty"

text \<open>\<open>re.findall(r'\b[A-Z][a-z]+\b', text)\<close>, scanning left to right. The flag tells whether
  the character before the current position is a word character (it is \<open>False\<close> at the start
  of the text). A match starts at an upper-case letter after a word boundary, takes the longest
  run of lower-case letters (at least one), and must end at a word boundary; a shorter run
  would end inside the word, so backtracking finds nothing more. After a match the scan
  resumes behind it, otherwise at the next character.\<close>

function findall_capitalized :: "bool \<Rightarrow> string \<Rightarrow> string list" where
  "findall_capitalized prev_word [] = []"
| "findall_capitalized prev_word (c # cs) =
     (let run = takeWhile is_lower cs; rest = dropWhile is_lower cs in
      if \<not> prev_word \<and> is_upper c \<and> run \<noteq> [] \<and> (rest = [] \<or> \<not> is_word (hd rest))
      then (c # run) # findall_capitalized True rest
      else findall_capitalized (is_word c) cs)"
  by pat_completeness auto
termination
  by (relation "measure (\<lambda>(p, s). length s)") (auto simp: length_dropWhile_le less_Suc_eq_le)

text \<open>The loop of \<open>extract_entities_simple\<close> over the words found, with its \<open>seen\<close> set, its
  result list and the \<open>break\<close> at five entities.\<close>

fun extract_loop :: "string list \<Rightarrow> string set \<Rightarrow> (string \<times> string) list \<Rightarrow> (string \<times> string) list" where
  "extract_loop [] seen entities = entities"
| "extract_loop (word # ws) seen entities =
     (if word \<notin> seen \<and> length word > 3
      then (let entities' = entities @ [(word, ''Entity'')]
            in if length entities' \<ge> 5 then entities'
               else extract_loop ws (insert word seen) entities')
      else extract_loop ws seen entities)"

definition extract_entities_simple :: "string \<Rightarrow> (string \<times> string) list" where
  "extract_entities_simple t = extract_loop (findall_capitalized False t) {} []"

definition doc_uri_of :: "string \<Rightarrow> string" where
  "doc_uri_of document_id = NAMESPACE_DOC @ document_id"

text \<open>The five document-level triples. \<open>now\<close> is \<open>datetime.utcnow().isoformat()\<close>, the one
  value the builder reads from its environment.\<close>

definition document_triples :: "string \<Rightarrow> string \<Rightarrow> string \<Rightarrow> string \<Rightarrow> triple list" where
  "document_triples now document_id text_content file_name =
     (let doc_uri = doc_uri_of document_id in
      [\<lparr>subject = doc_uri, predicate = ''rdf:type'', object = NAMESPACE_ONTO @ ''Document''\<rparr>,
       \<lparr>subject = doc_uri, predicate = NAMESPACE_ONTO @ ''hasId'', object = quoted document_id\<rparr>,
       \<lparr>subject = doc_uri, predicate = NAMESPACE_ONTO @ ''hasFileName'',
        object = quoted (escape_literal file_name)\<rparr>,
       \<lparr>subject = doc_uri, predicate = NAMESPACE_ONTO @ ''hasTextLength'',
        object = typed_literal (show_int (int (length text_content))) ''xsd:integer''\<rparr>,
       \<lparr>subject = doc_uri, predicate = NAMESPACE_ONTO @ ''createdAt'',
        object = typed_literal now ''xsd:dateTime''\<rparr>])"

text \<open>The body of the keyword loop, for one field of the split.\<close>

definition keyword_triples :: "string \<Rightarrow> string \<Rightarrow> triple list" where
  "keyword_triples doc_uri kw =
     (let keyword = strip kw; keyword_uri = NAMESPACE_ENTITY @ quote keyword in
      [\<lparr>subject = keyword_uri, predicate = ''rdf:type'', object = NAMESPACE_ONTO @ ''Keyword''\<rparr>,
       \<lparr>subject = keyword_uri, predicate = NAMESPACE_ONTO @ ''hasValue'',
        object = quoted (escape_literal keyword)\<rparr>,
       \<lparr>subject = doc_uri, predicate = NAMESPACE_ONTO @ ''hasKeyword'', object = keyword_uri\<rparr>])"

definition keywords_block :: "string \<Rightarrow> metadata \<Rightarrow> triple list" where
  "keywords_block doc_uri md =
     (if truthy (keywords_field md)
      then concat (map (keyword_triples doc_uri) (split_on CHR '','' (the (keywords_field md))))
      else [])"

definition document_type_block :: "string \<Rightarrow> metadata \<Rightarrow> triple list" where
  "document_type_block doc_uri md =
     (if truthy (documentType md)
      then [\<lparr>subject = doc_uri, predicate = NAMESPACE_ONTO @ ''hasType'',
             object = quoted (escape_literal (the (documentType md)))\<rparr>]
      else [])"

definition author_block :: "string \<Rightarrow> metadata \<Rightarrow> triple list" where
  "author_block doc_uri md =
     (if truthy (author md)
      then (let author_uri = NAMESPACE_ENTITY @ quote (the (author md)) in
        [\<lparr>subject = author_uri, predicate = ''rdf:type'', object = NAMESPACE_ONTO @ ''Author''\<rparr>,
         \<lparr>subject = author_uri, predicate = NAMESPACE_ONTO @ ''hasName'',
          object = quoted (escape_literal (the (author md)))\<rparr>,
         \<lparr>subject = doc_uri, predicate = NAMESPACE_ONTO @ ''hasAuthor'', object = author_uri\<rparr>])
      else [])"

text \<open>The body of the entity loop, for one extracted mention.\<close>

definition entity_triples :: "string \<Rightarrow> string \<times> string \<Rightarrow> triple list" where
  "entity_triples chunk_uri e =
     (case e of (entity_text, entity_type) \<Rightarrow>
        (let entity_uri = NAMESPACE_ENTITY @ quote entity_text in
         [\<lparr>subject = entity_uri, predicate = ''rdf:type'', object = NAMESPACE_ONTO @ entity_type\<rparr>,
          \<lparr>subject = entity_uri, predicate = NAMESPACE_ONTO @ ''hasValue'',
           object = quoted (escape_literal entity_text)\<rparr>,
          \<lparr>subject = chunk_uri, predicate = NAMESPACE_ONTO @ ''mentions'', object = entity_uri\<rparr>]))"

text \<open>The body of the chunk loop.\<close>

definition chunk_triples :: "string \<Rightarrow> chunk \<Rightarrow> triple list" where
  "chunk_triples doc_uri ch =
     (let chunk_id = (case chunkId ch of None \<Rightarrow> 0 | Some i \<Rightarrow> i);
          ctext = (case chunk_text ch of None \<Rightarrow> [] | Some t \<Rightarrow> t);
          chunk_uri = doc_uri @ ''/chunk/'' @ show_int chunk_id in
      [\<lparr>subject = chunk_uri, predicate = ''rdf:type'', object = NAMESPACE_ONTO @ ''TextChunk''\<rparr>,
       \<lparr>subject = chunk_uri, predicate = NAMESPACE_ONTO @ ''hasChunkId'',
        object = typed_literal (show_int chunk_id) ''xsd:integer''\<rparr>,
       \<lparr>subject = chunk_uri, predicate = NAMESPACE_ONTO @ ''hasText'',
        object = quoted (escape_literal (take 500 ctext))\<rparr>,
       \<lparr>subject = chunk_uri, predicate = NAMESPACE_ONTO @ ''hasStartPosition'',
        object = typed_literal
          (show_int (case startPosition ch of None \<Rightarrow> 0 | Some i \<Rightarrow> i)) ''xsd:integer''\<rparr>,
       \<lparr>subject = chunk_uri, predicate = NAMESPACE_ONTO @ ''hasLength'',
        object = typed_literal
          (show_int (case chunk_length ch of None \<Rightarrow> 0 | Some i \<Rightarrow> i)) ''xsd:integer''\<rparr>,
       \<lparr>subject = doc_uri, predicate = NAMESPACE_ONTO @ ''hasChunk'', object = chunk_uri\<rparr>]
      @ concat (map (entity_triples chunk_uri) (extract_entities_simple ctext)))"

definition generate_rdf_graph ::
  "string \<Rightarrow> string \<Rightarrow> string \<Rightarrow> chunk list \<Rightarrow> metadata \<Rightarrow> string \<Rightarrow> triple list" where
  "generate_rdf_graph now document_id text_content chunks md file_name =
     (let doc_uri = doc_uri_of document_id in
      document_triples now document_id text_content file_name
      @ keywords_block doc_uri md
      @ document_type_block doc_uri md
      @ author_block doc_uri md
      @ concat (map (chunk_triples doc_uri) chunks))"

section \<open>The graph serializer\<close>

text \<open>An insertion-ordered dictionary is an association list with distinct keys, in the order
  the keys were first stored. \<open>dict_update k d f\<close> is
  \<open>if k not in dict: dict[k] = d\<close> followed by \<open>dict[k] = f(dict[k])\<close>.\<close>

fun dict_update :: "'k \<Rightarrow> 'v \<Rightarrow> ('v \<Rightarrow> 'v) \<Rightarrow> ('k \<times> 'v) list \<Rightarrow> ('k \<times> 'v) list" where
  "dict_update k d f [] = [(k, f d)]"
| "dict_update k d f ((k', v) # kvs) =
     (if k = k' then (k', f v) # kvs else (k', v) # dict_update k d f kvs)"

definition dict_append :: "'k \<Rightarrow> 'v \<Rightarrow> ('k \<times> 'v list) list \<Rightarrow> ('k \<times> 'v list) list" where
  "dict_append k v dict = dict_update k [] (\<lambda>vs. vs @ [v]) dict"

definition format_uri :: "string \<Rightarrow> string" where
  "format_uri uri =
     (if startswith uri ''rdf:'' \<or> startswith uri ''xsd:'' then uri
      else if startswith uri NAMESPACE_DOC then replace NAMESPACE_DOC ''doc:'' uri
      else if startswith uri NAMESPACE_ENTITY then replace NAMESPACE_ENTITY ''entity:'' uri
      else if startswith uri NAMESPACE_ONTO then replace NAMESPACE_ONTO ''onto:'' uri
      else ''<'' @ uri @ ''>'')"

definition format_uri_full :: "string \<Rightarrow> string" where
  "format_uri_full uri =
     (if startswith uri ''rdf:''
        then ''<http://www.w3.org/1999/02/22-rdf-syntax-ns#'' @ drop 4 uri @ ''>''
      else if startswith uri ''xsd:''
        then ''<http://www.w3.org/2001/XMLSchema#'' @ drop 4 uri @ ''>''
      else if startswith uri ''doc:'' then ''<'' @ NAMESPACE_DOC @ drop 4 uri @ ''>''
      else if startswith uri ''entity:'' then ''<'' @ NAMESPACE_ENTITY @ drop 7 uri @ ''>''
      else if startswith uri ''onto:'' then ''<'' @ NAMESPACE_ONTO @ drop 5 uri @ ''>''
      else ''<'' @ uri @ ''>'')"

text \<open>The three terms of one statement line of the fully-qualified form.\<close>

definition ntriples_subject :: "string \<Rightarrow> string" where
  "ntriples_subject s = ''<'' @ s @ ''>''"

definition ntriples_predicate :: "string \<Rightarrow> string" where
  "ntriples_predicate p = (if \<not> startswith p ''<'' then format_uri_full p else p)"

definition ntriples_object :: "string \<Rightarrow> string" where
  "ntriples_object obj =
     (if \<not> startswith obj [dquote] \<and> \<not> startswith obj ''<'' then ''<'' @ obj @ ''>'' else obj)"

definition ntriples_line :: "triple \<Rightarrow> string" where
  "ntriples_line t =
     ntriples_subject (subject t) @ '' '' @ ntriples_predicate (predicate t) @ '' '' @
     ntriples_object (object t) @ '' .''"

definition serialize_ntriples :: "triple list \<Rightarrow> string" where
  "serialize_ntriples triples = join [newline] (map ntriples_line triples)"

text \<open>The compact form: prefix directives, then one block per subject in first-seen order.\<close>

definition turtle_prefixes :: "string list" where
  "turtle_prefixes =
     [''@prefix rdf: <http://www.w3.org/1999/02/22-rdf-syntax-ns#> .'',
      ''@prefix xsd: <http://www.w3.org/2001/XMLSchema#> .'',
      ''@prefix doc: <'' @ NAMESPACE_DOC @ ''> .'',
      ''@prefix entity: <'' @ NAMESPACE_ENTITY @ ''> .'',
      ''@prefix onto: <'' @ NAMESPACE_ONTO @ ''> .'',
      []]"

definition group_by_subject :: "triple list \<Rightarrow> (string \<times> triple list) list" where
  "group_by_subject triples = foldl (\<lambda>dict t. dict_append (subject t) t dict) [] triples"

definition turtle_object :: "string \<Rightarrow> string" where
  "turtle_object obj =
     (if startswith obj [dquote] then obj
      else if startswith obj NAMESPACE_BASE then ''<'' @ obj @ ''>''
      else format_uri obj)"

definition turtle_triple_line :: "nat \<Rightarrow> nat \<times> triple \<Rightarrow> string" where
  "turtle_triple_line n it =
     (case it of (i, t) \<Rightarrow>
        ''    '' @ format_uri (predicate t) @ '' '' @ turtle_object (object t) @
        (if int i < int n - 1 then '' ;'' else '' .''))"

definition turtle_block :: "string \<times> triple list \<Rightarrow> string list" where
  "turtle_block st =
     (case st of (subj, subject_triple_list) \<Rightarrow>
        [''<'' @ subj @ ''>''] @
        map (turtle_triple_line (length subject_triple_list)) (enumerate 0 subject_triple_list) @
        [[]])"

definition serialize_turtle :: "triple list \<Rightarrow> string" where
  "serialize_turtle triples =
     join [newline] (turtle_prefixes @ concat (map turtle_block (group_by_subject triples)))"

datatype error = ValueError string | IOError string

definition serialize_rdf :: "triple list \<Rightarrow> string \<Rightarrow> error + string" where
  "serialize_rdf triples fmt =
     (if fmt = ''turtle'' then Inr (serialize_turtle triples)
      else if fmt = ''n-triples'' then Inr (serialize_ntriples triples)
      else Inl (ValueError (''Unsupported RDF format: '' @ fmt)))"

section \<open>The graph parser\<close>

text \<open>The body of the parser's loop for one line: the triples it appends.\<close>

definition parse_line :: "string \<Rightarrow> (string \<times> string \<times> string) list" where
  "parse_line raw =
     (let line = strip raw in
      if line = [] \<or> startswith line ''#'' \<or> startswith line ''@'' then []
      else (let parts = split_ws line in
        if length parts \<ge> 3 then
          (if startswith (parts ! 0) ''<'' \<and> startswith (parts ! 1) ''<'' then
             (let subj = strip_chars ''<>'' (parts ! 0);
                  pred = strip_chars ''<>'' (parts ! 1);
                  object_val = rstrip_chars '' .'' (join '' '' (drop 2 parts));
                  object_val = strip_chars [CHR ''<'', CHR ''>'', dquote] object_val
              in [(subj, pred, object_val)])
           else [])
        else []))"

definition parse_turtle_simple :: "string \<Rightarrow> (string \<times> string \<times> string) list" where
  "parse_turtle_simple rdf_content = concat (map parse_line (split_on newline rdf_content))"

section \<open>The schema model and the validator\<close>

text \<open>The three lists of bindings of the ontology model. The endpoint binds every variable of
  the restrictions query; \<open>subClassOf\<close>, \<open>domain\<close> and \<open>range\<close> are optional.\<close>

record class_binding =
  class_uri :: string
  subClassOf :: "string option"

record property_binding =
  property_uri :: string
  domain_uri :: "string option"
  range_uri :: "string option"

record restriction =
  restricted_class :: string
  restricted_property :: string
  restrictionType :: string
  restriction_value :: string

record ontology_model =
  classes :: "class_binding list"
  properties :: "property_binding list"
  restrictions :: "restriction list"

text \<open>What the acquisition returns when the endpoint fails.\<close>

definition empty_model :: ontology_model where
  "empty_model = \<lparr>classes = [], properties = [], restrictions = []\<rparr>"

record instance_data =
  types :: "string list"
  property_values :: "(string \<times> string list) list"

datatype issue =
  UndefinedClass (issue_instance: string) (issue_class: string) (issue_message: string)
| DomainMismatch (issue_instance: string) (issue_property: string) (expected_domain: string)
    (actual_types: "string list") (issue_message: string)
| CardinalityViolation (issue_instance: string) (issue_property: string) (expected: int)
    (actual: int) (issue_message: string)
| MinCardinalityViolation (issue_instance: string) (issue_property: string) (min_expected: int)
    (actual: int) (issue_message: string)

text \<open>The \<open>'type'\<close> entry of an issue dictionary.\<close>

fun issue_type :: "issue \<Rightarrow> string" where
  "issue_type (UndefinedClass i c m) = ''undefined_class''"
| "issue_type (DomainMismatch i p d ts m) = ''domain_mismatch''"
| "issue_type (CardinalityViolation i p e a m) = ''cardinality_violation''"
| "issue_type (MinCardinalityViolation i p e a m) = ''min_cardinality_violation''"

record validation_results =
  violations :: "issue list"
  warnings :: "issue list"
  checks_performed :: "string list"
  instances_validated :: nat
  triples_validated :: nat

definition RDF_TYPE :: string where
  "RDF_TYPE = ''http://www.w3.org/1999/02/22-rdf-syntax-ns#type''"

definition new_instance :: instance_data where
  "new_instance = \<lparr>types = [], property_values = []\<rparr>"

text \<open>The body of the grouping loop, for one triple.\<close>

definition add_triple ::
  "(string \<times> instance_data) list \<Rightarrow> string \<times> string \<times> string \<Rightarrow> (string \<times> instance_data) list" where
  "add_triple instances spo =
     (case spo of (s, p, obj) \<Rightarrow>
        if p = RDF_TYPE
        then dict_update s new_instance (\<lambda>d. d\<lparr>types := types d @ [obj]\<rparr>) instances
        else dict_update s new_instance
               (\<lambda>d. d\<lparr>property_values := dict_append p obj (property_values d)\<rparr>) instances)"

definition group_instances :: "(string \<times> string \<times> string) list \<Rightarrow> (string \<times> instance_data) list" where
  "group_instances triples = foldl add_triple [] triples"

text \<open>\<open>len(instance_data['properties'].get(prop_uri, []))\<close>.\<close>

definition prop_count :: "instance_data \<Rightarrow> string \<Rightarrow> nat" where
  "prop_count d prop_uri =
     (case map_of (property_values d) prop_uri of None \<Rightarrow> 0 | Some vs \<Rightarrow> length vs)"

text \<open>Check 1: class membership.\<close>

definition ONTOLOGY_HASH_PREFIX :: string where
  "ONTOLOGY_HASH_PREFIX = ''http://graph-rag.example.com/ontology#''"

definition check_class_membership ::
  "(string \<times> instance_data) list \<Rightarrow> ontology_model \<Rightarrow> issue list" where
  "check_class_membership instances model =
     (let defined_classes = set (map class_uri (classes model)) in
      concat (map (\<lambda>(instance_uri, d).
        concat (map (\<lambda>c.
          if startswith c ONTOLOGY_HASH_PREFIX then
            (if c \<notin> defined_classes \<and> defined_classes \<noteq> {}
             then [UndefinedClass instance_uri c
                     (''Instance '' @ instance_uri @ '' has type '' @ c @
                      '' which is not defined in ontology'')]
             else [])
          else []) (types d))) instances))"

text \<open>Check 2: property domains. The dictionary comprehension keeps, for a property bound
  several times, its last binding.\<close>

definition property_definitions :: "ontology_model \<Rightarrow> string \<Rightarrow> property_binding option" where
  "property_definitions model = map_of (rev (map (\<lambda>p. (property_uri p, p)) (properties model)))"

definition check_property_domains ::
  "(string \<times> instance_data) list \<Rightarrow> ontology_model \<Rightarrow> issue list" where
  "check_property_domains instances model =
     concat (map (\<lambda>(instance_uri, d).
       concat (map (\<lambda>(prop_uri, vals).
         (case property_definitions model prop_uri of
            None \<Rightarrow> []
          | Some prop_def \<Rightarrow>
              if truthy (domain_uri prop_def) then
                (let expected_domain = the (domain_uri prop_def) in
                 if expected_domain \<notin> set (types d)
                 then [DomainMismatch instance_uri prop_uri expected_domain (types d)
                         (''Property '' @ prop_uri @ '' expects domain '' @ expected_domain)]
                 else [])
              else [])) (property_values d))) instances)"

text \<open>\<open>int(value)\<close> on a string: surrounding white space, an optional sign, and decimal digits
  that single underscores may separate; anything else raises \<open>ValueError\<close>. (The interpreter's
  limit on the number of digits is not modelled.)\<close>

definition is_int_space :: "char \<Rightarrow> bool" where
  "is_int_space c = (let n = ord c in (9 \<le> n \<and> n \<le> 13) \<or> n = 32 \<or> n = 0x85 \<or> n = 0xA0)"

fun parse_digits :: "bool \<Rightarrow> int \<Rightarrow> string \<Rightarrow> int option" where
  "parse_digits prev_digit acc [] = (if prev_digit then Some acc else None)"
| "parse_digits prev_digit acc (c # cs) =
     (if is_digit c then parse_digits True (acc * 10 + (int (ord c) - 48)) cs
      else if c = CHR ''_'' \<and> prev_digit then parse_digits False acc cs
      else None)"

definition py_int :: "string \<Rightarrow> int option" where
  "py_int s =
     (case strip_by is_int_space s of
        [] \<Rightarrow> None
      | c # cs \<Rightarrow>
          if c = CHR ''-'' then map_option uminus (parse_digits False 0 cs)
          else if c = CHR ''+'' then parse_digits False 0 cs
          else parse_digits False 0 (c # cs))"

text \<open>Check 3: cardinality. \<open>restrictions_by_class\<close> is the dictionary from a class to its
  restrictions, in schema order.\<close>

definition restrictions_by_class :: "ontology_model \<Rightarrow> (string \<times> restriction list) list" where
  "restrictions_by_class model =
     foldl (\<lambda>dict r. dict_append (restricted_class r) r dict) [] (restrictions model)"

text \<open>The body of the innermost loop: the violations one restriction adds for one instance,
  or the error that leaves the validator.\<close>

definition check_restriction :: "string \<Rightarrow> instance_data \<Rightarrow> restriction \<Rightarrow> error + issue list" where
  "check_restriction instance_uri d r =
     (let prop_uri = restricted_property r;
          restriction_type = restrictionType r;
          val = restriction_value r in
      if restriction_type = ''cardinality'' \<and> val = ''1'' then
        (let n = prop_count d prop_uri in
         if n \<noteq> 1
         then Inr [CardinalityViolation instance_uri prop_uri 1 (int n)
                     (''Property '' @ prop_uri @ '' must have exactly 1 value, has '' @
                      show_int (int n))]
         else Inr [])
      else if restriction_type = ''minCardinality'' then
        (case py_int val of
           None \<Rightarrow> Inl (ValueError (''invalid literal for int() with base 10: '' @ val))
         | Some min_card \<Rightarrow>
             (let n = prop_count d prop_uri in
              if int n < min_card
              then Inr [MinCardinalityViolation instance_uri prop_uri min_card (int n)
                          (''Property '' @ prop_uri @ '' must have at least '' @
                           show_int min_card @ '' values, has '' @ show_int (int n))]
              else Inr []))
      else Inr [])"

text \<open>A loop that appends what its body yields for each element, and stops at the first
  element whose body raises.\<close>

fun collect :: "('a \<Rightarrow> error + 'b list) \<Rightarrow> 'a list \<Rightarrow> error + 'b list" where
  "collect f [] = Inr []"
| "collect f (x # xs) =
     (case f x of
        Inl e \<Rightarrow> Inl e
      | Inr ys \<Rightarrow> (case collect f xs of Inl e \<Rightarrow> Inl e | Inr zs \<Rightarrow> Inr (ys @ zs)))"

definition check_cardinality ::
  "(string \<times> instance_data) list \<Rightarrow> ontology_model \<Rightarrow> error + issue list" where
  "check_cardinality instances model =
     (let by_class = restrictions_by_class model in
      collect (\<lambda>(instance_uri, d).
        collect (\<lambda>c.
          (case map_of by_class c of
             None \<Rightarrow> Inr []
           | Some rs \<Rightarrow> collect (check_restriction instance_uri d) rs)) (types d)) instances)"

definition validate_against_ontology ::
  "(string \<times> string \<times> string) list \<Rightarrow> ontology_model \<Rightarrow> error + validation_results" where
  "validate_against_ontology triples model =
     (let instances = group_instances triples;
          warnings1 = check_class_membership instances model;
          warnings2 = check_property_domains instances model in
      case check_cardinality instances model of
        Inl e \<Rightarrow> Inl e
      | Inr vs \<Rightarrow> Inr \<lparr>violations = vs,
                      warnings = warnings1 @ warnings2,
                      checks_performed =
                        [''class_membership'', ''property_domains_ranges'',
                         ''cardinality_constraints''],
                      instances_validated = length instances,
                      triples_validated = length triples\<rparr>)"

section \<open>The validation handler\<close>

record event =
  documentId :: "string option"
  rdfS3Key :: "string option"
  rdfBucket :: "string option"

text \<open>The dictionary the handler returns: the result of a validation that ran, or the
  report of the exception that ended it.\<close>

datatype handler_result =
  Validated (validationStatus: string) (result_violations: "issue list")
    (result_warnings: "issue list") (validationChecks: "string list") (success: bool)
| Failed (validationStatus: string) (success: bool) (failure: error) (stage: string)

text \<open>The handler from the status computation on.\<close>

definition report :: "validation_results \<Rightarrow> handler_result" where
  "report validation_results =
     (let has_errors = length (violations validation_results) > 0;
          has_warnings = length (warnings validation_results) > 0;
          status = (if has_errors then ''FAILED''
                    else if has_warnings then ''WARNING''
                    else ''PASSED'')
      in Validated status (violations validation_results) (warnings validation_results)
           (checks_performed validation_results) (status \<noteq> ''FAILED''))"

text \<open>The handler. Its environment is the configured bucket name, the object store (a read
  of a bucket and key yields the decoded text or raises) and the ontology model that
  \<open>fetch_ontology_model\<close> returns, which is \<^const>\<open>empty_model\<close> when the endpoint fails.\<close>

definition handler ::
  "string \<Rightarrow> (string \<Rightarrow> string \<Rightarrow> error + string) \<Rightarrow> ontology_model \<Rightarrow> event \<Rightarrow> handler_result" where
  "handler BUCKET_NAME get_object fetched_model ev =
     (let outcome =
        (if \<not> truthy (documentId ev) \<or> \<not> truthy (rdfS3Key ev)
         then Inl (ValueError ''documentId and rdfS3Key are required'')
         else (let rdf_bucket = (case rdfBucket ev of None \<Rightarrow> BUCKET_NAME | Some b \<Rightarrow> b) in
           case get_object rdf_bucket (the (rdfS3Key ev)) of
             Inl e \<Rightarrow> Inl e
           | Inr rdf_content \<Rightarrow>
               validate_against_ontology (parse_turtle_simple rdf_content) fetched_model))
      in case outcome of
           Inl e \<Rightarrow> Failed ''ERROR'' False e ''ontology-validation''
         | Inr validation_results \<Rightarrow> report validation_results)"

section \<open>Notions used to state the properties\<close>

text \<open>The distinct elements of a list in the order of their first occurrence, leaving out
  those already in \<open>seen\<close>.\<close>

fun first_seen :: "'a set \<Rightarrow> 'a list \<Rightarrow> 'a list" where
  "first_seen seen [] = []"
| "first_seen seen (x # xs) =
     (if x \<in> seen then first_seen seen xs else x # first_seen (insert x seen) xs)"


text \<open>The fields the keyword loop of the builder runs over: those of the split of the
  keyword field, and none when the field is absent or empty.\<close>

definition keyword_tokens :: "metadata \<Rightarrow> string list" where
  "keyword_tokens md =
     (case keywords_field md of
        None \<Rightarrow> []
      | Some k \<Rightarrow> if k = [] then [] else split_on CHR '','' k)"




text \<open>The type list and the values of a property that a dictionary of instances holds for a
  subject; both are empty for a subject it does not hold.\<close>

definition types_of :: "(string \<times> instance_data) list \<Rightarrow> string \<Rightarrow> string list" where
  "types_of insts uri = (case map_of insts uri of None \<Rightarrow> [] | Some d \<Rightarrow> types d)"

definition values_of :: "(string \<times> instance_data) list \<Rightarrow> string \<Rightarrow> string \<Rightarrow> string list" where
  "values_of insts uri p =
     (case map_of insts uri of
        None \<Rightarrow> []
      | Some d \<Rightarrow> (case map_of (property_values d) p of None \<Rightarrow> [] | Some vs \<Rightarrow> vs))"

text \<open>A token written as a bracketed URI, \<open><...>\<close>.\<close>

definition bracketed :: "string \<Rightarrow> bool" where
  "bracketed tok = (startswith tok ''<'' \<and> tok \<noteq> [] \<and> last tok = CHR ''>'')"

text \<open>The triple the parser forms from the tokens of a line it accepts.\<close>

definition triple_of_parts :: "string list \<Rightarrow> string \<times> string \<times> string" where
  "triple_of_parts parts =
     (strip_chars ''<>'' (parts ! 0),
      strip_chars ''<>'' (parts ! 1),
      strip_chars [CHR ''<'', CHR ''>'', dquote] (rstrip_chars '' .'' (join '' '' (drop 2 parts))))"

text \<open>A string without white space.\<close>

definition no_space :: "string \<Rightarrow> bool" where
  "no_space s = list_all (\<lambda>c. \<not> is_space c) s"

text \<open>The triple the parser's line rule reads back from the line the fully-qualified
  serializer writes for a triple: the subject and the predicate as written, without leading
  and trailing angle brackets; the object as written, its runs of white space collapsed to
  single blanks, without trailing blanks and periods and then without leading and trailing
  angle brackets and double quotes.\<close>

definition roundtrip_triple :: "triple \<Rightarrow> string \<times> string \<times> string" where
  "roundtrip_triple t =
     (strip_chars ''<>'' (ntriples_subject (subject t)),
      strip_chars ''<>'' (ntriples_predicate (predicate t)),
      strip_chars [CHR ''<'', CHR ''>'', dquote]
        (rstrip_chars '' .'' (join '' '' (split_ws (ntriples_object (object t)) @ [''.'']))))"

text \<open>A triple whose line the parser can read back: no white space in the subject and in
  the written predicate, and no line break in the object.\<close>

definition clean_triple :: "triple \<Rightarrow> bool" where
  "clean_triple t =
     (no_space (subject t) \<and> no_space (ntriples_predicate (predicate t)) \<and>
      newline \<notin> set (object t))"


text \<open>The five rules of \<open>escape_literal\<close>, character by character.\<close>

definition escape_char :: "char \<Rightarrow> string" where
  "escape_char c =
     (if c = backslash then [backslash, backslash]
      else if c = dquote then [backslash, dquote]
      else if c = newline then [backslash, CHR ''n'']
      else if c = carriage_return then [backslash, CHR ''r'']
      else if c = tab then [backslash, CHR ''t'']
      else [c])"

text \<open>No object the builder writes begins with the prefix the check looks for: an object is
  a quoted literal or lies in one of the three namespaces of the builder.\<close>

definition builder_object :: "string \<Rightarrow> bool" where
  "builder_object obj =
     (startswith obj [dquote] \<or> startswith obj NAMESPACE_DOC \<or> startswith obj NAMESPACE_ENTITY \<or>
      startswith obj NAMESPACE_ONTO)"

text \<open>The class URIs and the property URIs the builder writes.\<close>

definition builder_classes :: "string list" where
  "builder_classes =
     map (\<lambda>n. NAMESPACE_ONTO @ n) [''Document'', ''Keyword'', ''Author'', ''TextChunk'', ''Entity'']"

definition builder_properties :: "string list" where
  "builder_properties =
     map (\<lambda>n. NAMESPACE_ONTO @ n)
       [''hasId'', ''hasFileName'', ''hasTextLength'', ''createdAt'', ''hasValue'', ''hasKeyword'',
        ''hasType'', ''hasName'', ''hasAuthor'', ''hasChunkId'', ''hasText'', ''hasStartPosition'',
        ''hasLength'', ''hasChunk'', ''mentions'']"

section \<open>Properties of the graph builder\<close>

subsection \<open>Entity extraction\<close>



lemma extract_loop_first_seen:
  "length entities < 5 \<Longrightarrow>
   map fst (extract_loop ws seen entities) =
     take 5 (map fst entities @ first_seen seen (filter (\<lambda>w. 3 < length w) ws))"
proof (induction ws arbitrary: seen entities)
  case Nil
  then show ?case by simp
next
  case (Cons w ws)
  show ?case
  proof (cases "w \<notin> seen \<and> 3 < length w")
    case True
    show ?thesis
    proof (cases "length entities = 4")
      case True
      with \<open>w \<notin> seen \<and> 3 < length w\<close> show ?thesis by simp
    next
      case False
      with Cons.prems have "length (entities @ [(w, ''Entity'')]) < 5" by simp
      from Cons.IH [OF this, of "insert w seen"] True False Cons.prems
      show ?thesis by (simp add: Let_def)
    qed
  next
    case False
    with Cons show ?thesis by auto
  qed
qed

lemma extract_loop_snd:
  "\<forall>e \<in> set entities. snd e = ''Entity'' \<Longrightarrow>
   \<forall>e \<in> set (extract_loop ws seen entities). snd e = ''Entity''"
proof (induction ws arbitrary: seen entities)
  case Nil
  then show ?case by simp
next
  case (Cons w ws)
  have ext: "\<forall>e \<in> set (entities @ [(w, ''Entity'')]). snd e = ''Entity''"
    using Cons.prems by simp
  show ?case
    using Cons.IH [OF ext, of "insert w seen"] Cons.IH [OF Cons.prems, of seen] ext
    by (simp add: Let_def)
qed

lemma pairs_with_constant_snd:
  "\<forall>e \<in> set xs. snd e = b \<Longrightarrow> xs = map (\<lambda>w. (w, b)) (map fst xs)"
  by (induction xs) auto

lemma extract_entities_simple_eq:
  "extract_entities_simple t =
     map (\<lambda>w. (w, ''Entity''))
       (take 5 (first_seen {} (filter (\<lambda>w. 3 < length w) (findall_capitalized False t))))"
proof -
  have fst: "map fst (extract_entities_simple t) =
      take 5 (first_seen {} (filter (\<lambda>w. 3 < length w) (findall_capitalized False t)))"
    unfolding extract_entities_simple_def using extract_loop_first_seen [of "[]"] by simp
  have snd: "\<forall>e \<in> set (extract_entities_simple t). snd e = ''Entity''"
    unfolding extract_entities_simple_def using extract_loop_snd [of "[]"] by simp
  from pairs_with_constant_snd [OF snd] fst show ?thesis by simp
qed

lemma is_lower_word: "is_lower c \<Longrightarrow> is_word c"
  by (simp add: is_word_def)




subsection \<open>Keyword triples\<close>

lemma keywords_field_update_blocks:
  "document_type_block u (md\<lparr>keywords_field := x\<rparr>) = document_type_block u md"
  "author_block u (md\<lparr>keywords_field := x\<rparr>) = author_block u md"
  by (simp_all add: document_type_block_def author_block_def)

lemma length_document_triples: "length (document_triples now d t f) = 5"
  by (simp add: document_triples_def Let_def)

lemma length_keyword_triples: "length (keyword_triples u tok) = 3"
  by (simp add: keyword_triples_def Let_def)

lemma length_concat_keyword_triples:
  "length (concat (map (keyword_triples u) toks)) = 3 * length toks"
  by (induction toks) (simp_all add: length_keyword_triples)

lemma keywords_block_tokens:
  "keywords_block u md = concat (map (keyword_triples u) (keyword_tokens md))"
  by (simp add: keywords_block_def keyword_tokens_def truthy_def split: option.splits)

text \<open>
  C6 (amended). The builder emits three triples for each field of the split of a non-empty
  keyword field (a type triple, a value triple and a link triple), in the order of the split,
  directly after the five document triples, and none when the field is absent or empty: a
  document whose keyword field splits into N fields has exactly 3 N triples more than the
  same document without the field.
\<close>

theorem keyword_triples_count:
  "generate_rdf_graph now d t cs md f =
     take 5 (generate_rdf_graph now d t cs (md\<lparr>keywords_field := None\<rparr>) f) @
     concat (map (keyword_triples (doc_uri_of d)) (keyword_tokens md)) @
     drop 5 (generate_rdf_graph now d t cs (md\<lparr>keywords_field := None\<rparr>) f) \<and>
   length (generate_rdf_graph now d t cs md f) =
     length (generate_rdf_graph now d t cs (md\<lparr>keywords_field := None\<rparr>) f) +
     3 * length (keyword_tokens md) \<and>
   (\<forall>k. keywords_field md = Some k \<and> k \<noteq> [] \<longrightarrow> keyword_tokens md = split_on CHR '','' k)"
proof -
  have none: "keywords_block u (md\<lparr>keywords_field := None\<rparr>) = []" for u
    by (simp add: keywords_block_def truthy_def)
  have g0: "generate_rdf_graph now d t cs (md\<lparr>keywords_field := None\<rparr>) f =
      document_triples now d t f @
      (document_type_block (doc_uri_of d) md @ author_block (doc_uri_of d) md @
       concat (map (chunk_triples (doc_uri_of d)) cs))"
    by (simp add: generate_rdf_graph_def Let_def none keywords_field_update_blocks)
  have g: "generate_rdf_graph now d t cs md f =
      document_triples now d t f @
      concat (map (keyword_triples (doc_uri_of d)) (keyword_tokens md)) @
      (document_type_block (doc_uri_of d) md @ author_block (doc_uri_of d) md @
       concat (map (chunk_triples (doc_uri_of d)) cs))"
    by (simp add: generate_rdf_graph_def Let_def keywords_block_tokens)
  have split: "generate_rdf_graph now d t cs md f =
     take 5 (generate_rdf_graph now d t cs (md\<lparr>keywords_field := None\<rparr>) f) @
     concat (map (keyword_triples (doc_uri_of d)) (keyword_tokens md)) @
     drop 5 (generate_rdf_graph now d t cs (md\<lparr>keywords_field := None\<rparr>) f)"
    unfolding g g0 by (simp add: length_document_triples)
  have len: "length (generate_rdf_graph now d t cs md f) =
     length (generate_rdf_graph now d t cs (md\<lparr>keywords_field := None\<rparr>) f) +
     3 * length (keyword_tokens md)"
    unfolding g g0 by (simp add: length_concat_keyword_triples)
  have toks: "\<forall>k. keywords_field md = Some k \<and> k \<noteq> [] \<longrightarrow> keyword_tokens md = split_on CHR '','' k"
    by (simp add: keyword_tokens_def)
  show ?thesis
    by (intro conjI) (fact split len toks)+
qed

theorem keyword_triples_count_witness:
  "length (generate_rdf_graph ''2020-01-01T00:00:00'' ''doc-1'' ''Hello'' []
     \<lparr>keywords_field = Some ''a,b'', documentType = None, author = None\<rparr> ''f.txt'') =
   length (generate_rdf_graph ''2020-01-01T00:00:00'' ''doc-1'' ''Hello'' []
     \<lparr>keywords_field = None, documentType = None, author = None\<rparr> ''f.txt'') + 3 * 2"
  using keyword_triples_count [of "''2020-01-01T00:00:00''" "''doc-1''" "''Hello''" "[]"
     "\<lparr>keywords_field = Some ''a,b'', documentType = None, author = None\<rparr>" "''f.txt''",
     THEN conjunct2, THEN conjunct1]
  by (simp add: keyword_tokens_def)

theorem keyword_triples_count_counterexample:
  "length (split_on CHR '','' ''a,b'') = 2 \<and>
   length (generate_rdf_graph ''2020-01-01T00:00:00'' ''doc-1'' ''Hello'' []
     \<lparr>keywords_field = Some ''a,b'', documentType = None, author = None\<rparr> ''f.txt'') \<noteq>
   length (generate_rdf_graph ''2020-01-01T00:00:00'' ''doc-1'' ''Hello'' []
     \<lparr>keywords_field = None, documentType = None, author = None\<rparr> ''f.txt'') + (2 * 2 + 1)"
  by (simp add: generate_rdf_graph_def document_triples_def keywords_block_def
      document_type_block_def author_block_def truthy_def keyword_triples_def Let_def)

text \<open>
  C8 (amended). When the keyword field is present and not empty, the builder splits it on
  commas, trims white space from each field, and emits the three keyword triples for every
  field of the split, whether the trimmed field is empty or not; for an empty one the keyword
  node is the bare entity namespace.
\<close>

theorem keyword_triples_every_token:
  assumes "keywords_field md = Some k" and "k \<noteq> []" and "tok \<in> set (split_on CHR '','' k)"
  shows "keywords_block (doc_uri_of d) md =
           concat (map (\<lambda>tok.
             [\<lparr>subject = NAMESPACE_ENTITY @ quote (strip tok), predicate = ''rdf:type'',
               object = NAMESPACE_ONTO @ ''Keyword''\<rparr>,
              \<lparr>subject = NAMESPACE_ENTITY @ quote (strip tok),
               predicate = NAMESPACE_ONTO @ ''hasValue'',
               object = quoted (escape_literal (strip tok))\<rparr>,
              \<lparr>subject = doc_uri_of d, predicate = NAMESPACE_ONTO @ ''hasKeyword'',
               object = NAMESPACE_ENTITY @ quote (strip tok)\<rparr>]) (split_on CHR '','' k)) \<and>
         set (keywords_block (doc_uri_of d) md) \<subseteq> set (generate_rdf_graph now d t cs md f) \<and>
         set [\<lparr>subject = NAMESPACE_ENTITY @ quote (strip tok), predicate = ''rdf:type'',
               object = NAMESPACE_ONTO @ ''Keyword''\<rparr>,
              \<lparr>subject = NAMESPACE_ENTITY @ quote (strip tok),
               predicate = NAMESPACE_ONTO @ ''hasValue'',
               object = quoted (escape_literal (strip tok))\<rparr>,
              \<lparr>subject = doc_uri_of d, predicate = NAMESPACE_ONTO @ ''hasKeyword'',
               object = NAMESPACE_ENTITY @ quote (strip tok)\<rparr>]
           \<subseteq> set (generate_rdf_graph now d t cs md f) \<and>
         (strip tok = [] \<longrightarrow>
            \<lparr>subject = NAMESPACE_ENTITY, predicate = ''rdf:type'',
             object = NAMESPACE_ONTO @ ''Keyword''\<rparr> \<in> set (generate_rdf_graph now d t cs md f))"
proof -
  let ?three = "\<lambda>tok.
             [\<lparr>subject = NAMESPACE_ENTITY @ quote (strip tok), predicate = ''rdf:type'',
               object = NAMESPACE_ONTO @ ''Keyword''\<rparr>,
              \<lparr>subject = NAMESPACE_ENTITY @ quote (strip tok),
               predicate = NAMESPACE_ONTO @ ''hasValue'',
               object = quoted (escape_literal (strip tok))\<rparr>,
              \<lparr>subject = doc_uri_of d, predicate = NAMESPACE_ONTO @ ''hasKeyword'',
               object = NAMESPACE_ENTITY @ quote (strip tok)\<rparr>]"
  have kt: "keyword_triples (doc_uri_of d) = ?three"
    by (rule ext) (simp add: keyword_triples_def Let_def)
  have block: "keywords_block (doc_uri_of d) md = concat (map ?three (split_on CHR '','' k))"
    using assms(1,2) by (simp add: keywords_block_def truthy_def kt)
  have sub: "set (keywords_block (doc_uri_of d) md) \<subseteq> set (generate_rdf_graph now d t cs md f)"
    by (auto simp: generate_rdf_graph_def Let_def)
  have "set (?three tok) \<subseteq> set (keywords_block (doc_uri_of d) md)"
    unfolding block using assms(3) by auto
  with sub have three: "set (?three tok) \<subseteq> set (generate_rdf_graph now d t cs md f)"
    by (rule order_trans [rotated])
  have empty: "strip tok = [] \<longrightarrow>
            \<lparr>subject = NAMESPACE_ENTITY, predicate = ''rdf:type'',
             object = NAMESPACE_ONTO @ ''Keyword''\<rparr> \<in> set (generate_rdf_graph now d t cs md f)"
  proof
    assume e: "strip tok = []"
    have "\<lparr>subject = NAMESPACE_ENTITY, predicate = ''rdf:type'',
             object = NAMESPACE_ONTO @ ''Keyword''\<rparr> \<in> set (?three tok)"
      by (simp add: e quote_def)
    then show "\<lparr>subject = NAMESPACE_ENTITY, predicate = ''rdf:type'',
             object = NAMESPACE_ONTO @ ''Keyword''\<rparr> \<in> set (generate_rdf_graph now d t cs md f)"
      by (rule subsetD [OF three])
  qed
  show ?thesis
    by (intro conjI) (fact block sub three empty)+
qed

theorem keyword_triples_every_token_witness:
  "\<lparr>subject = NAMESPACE_ENTITY, predicate = ''rdf:type'', object = NAMESPACE_ONTO @ ''Keyword''\<rparr>
     \<in> set (generate_rdf_graph ''2020-01-01T00:00:00'' ''doc-1'' ''Hello'' []
          \<lparr>keywords_field = Some ''a, '', documentType = None, author = None\<rparr> ''f.txt'')"
proof -
  have k: "keywords_field \<lparr>keywords_field = Some ''a, '', documentType = None, author = None\<rparr>
      = Some ''a, ''" and ne: "''a, '' \<noteq> []"
    by simp_all
  have tok: "'' '' \<in> set (split_on CHR '','' ''a, '')"
    by simp
  have s: "strip '' '' = []"
    by (simp add: strip_def strip_by_def lstrip_by_def rstrip_by_def is_space_def ord_def)
  from keyword_triples_every_token [OF k ne tok, of "''doc-1''" "''2020-01-01T00:00:00''"
      "''Hello''" "[]" "''f.txt''"] s
  show ?thesis by blast
qed

theorem keyword_triples_every_token_counterexample:
  "split_on CHR '','' ''a,'' = [''a'', []] \<and>
   \<lparr>subject = ''http://graph-rag.example.com/entity/'', predicate = ''rdf:type'',
    object = ''http://graph-rag.example.com/ontology/Keyword''\<rparr>
     \<in> set (generate_rdf_graph ''2020-01-01T00:00:00'' ''doc-1'' ''Hello'' []
          \<lparr>keywords_field = Some ''a,'', documentType = None, author = None\<rparr> ''f.txt'') \<and>
   length (generate_rdf_graph ''2020-01-01T00:00:00'' ''doc-1'' ''Hello'' []
          \<lparr>keywords_field = Some ''a,'', documentType = None, author = None\<rparr> ''f.txt'') =
   length (generate_rdf_graph ''2020-01-01T00:00:00'' ''doc-1'' ''Hello'' []
          \<lparr>keywords_field = Some ''a'', documentType = None, author = None\<rparr> ''f.txt'') + 3"
  by (simp add: generate_rdf_graph_def document_triples_def keywords_block_def
      document_type_block_def author_block_def truthy_def keyword_triples_def Let_def
      NAMESPACE_ENTITY_def NAMESPACE_ONTO_def NAMESPACE_BASE_def quote_def
      strip_def strip_by_def lstrip_by_def rstrip_by_def)

section \<open>Properties of the string operations\<close>

subsection \<open>Splitting at white space\<close>

lemma split_ws_from_spaces:
  "\<forall>c \<in> set sp. is_space c \<Longrightarrow> split_ws_from acc sp = (if acc = [] then [] else [rev acc])"
  by (induction sp arbitrary: acc) auto

lemma split_ws_from_append_spaces:
  "\<forall>c \<in> set sp. is_space c \<Longrightarrow> split_ws_from acc (xs @ sp) = split_ws_from acc xs"
  by (induction xs arbitrary: acc) (auto simp: split_ws_from_spaces)

lemma split_ws_dropWhile: "split_ws (dropWhile is_space s) = split_ws s"
  by (induction s) (auto simp: split_ws_def)

lemma split_ws_strip: "split_ws (strip s) = split_ws s"
proof -
  let ?body = "rev (dropWhile is_space (rev s))" and ?sp = "rev (takeWhile is_space (rev s))"
  have s: "s = ?body @ ?sp"
    by (metis rev_append rev_rev_ident takeWhile_dropWhile_id)
  have sp: "\<forall>c \<in> set ?sp. is_space c"
    by (auto dest: set_takeWhileD)
  have "split_ws s = split_ws (?body @ ?sp)"
    using s by simp
  also have "\<dots> = split_ws ?body"
    unfolding split_ws_def by (rule split_ws_from_append_spaces [OF sp])
  finally show ?thesis
    by (simp add: strip_def strip_by_def lstrip_by_def rstrip_by_def split_ws_dropWhile)
qed

lemma split_ws_from_word:
  "\<forall>c \<in> set w. \<not> is_space c \<Longrightarrow> split_ws_from acc (w @ rest) = split_ws_from (rev w @ acc) rest"
  by (induction w arbitrary: acc) auto

lemma split_ws_from_append_space:
  "is_space sp \<Longrightarrow> split_ws_from acc (xs @ sp # ys) = split_ws_from acc xs @ split_ws_from [] ys"
  by (induction xs arbitrary: acc) auto

lemma split_ws_append_space:
  "is_space sp \<Longrightarrow> split_ws (xs @ sp # ys) = split_ws xs @ split_ws ys"
  unfolding split_ws_def by (rule split_ws_from_append_space)

lemma split_ws_word:
  assumes "\<forall>c \<in> set w. \<not> is_space c" and "w \<noteq> []"
  shows "split_ws w = [w]"
  using split_ws_from_word [OF assms(1), of "[]" "[]"] assms(2) by (simp add: split_ws_def)

lemma split_ws_word_space:
  assumes "\<forall>c \<in> set w. \<not> is_space c" and "w \<noteq> []" and "is_space sp"
  shows "split_ws (w @ sp # rest) = w # split_ws rest"
  by (simp add: split_ws_append_space [OF assms(3)] split_ws_word [OF assms(1,2)])

lemma split_ws_from_first:
  "acc \<noteq> [] \<Longrightarrow> \<exists>w ws. split_ws_from acc cs = (rev acc @ w) # ws"
proof (induction cs arbitrary: acc)
  case Nil
  then show ?case by simp
next
  case (Cons c cs)
  show ?case
  proof (cases "is_space c")
    case True
    with Cons.prems show ?thesis by simp
  next
    case False
    from Cons.IH [of "c # acc"] obtain w ws where "split_ws_from (c # acc) cs = (rev (c # acc) @ w) # ws"
      by blast
    with False show ?thesis by simp
  qed
qed

lemma split_ws_first_char:
  "\<not> is_space c \<Longrightarrow> \<exists>w ws. split_ws (c # cs) = (c # w) # ws"
  using split_ws_from_first [of "[c]" cs] by (simp add: split_ws_def)

lemma split_ws_empty_iff: "split_ws s = [] \<longleftrightarrow> (\<forall>c \<in> set s. is_space c)"
proof
  assume e: "split_ws s = []"
  show "\<forall>c \<in> set s. is_space c"
  proof (rule ccontr)
    assume "\<not> (\<forall>c \<in> set s. is_space c)"
    then have "dropWhile is_space s \<noteq> []" by simp
    then obtain c cs where d: "dropWhile is_space s = c # cs" by (cases "dropWhile is_space s") auto
    then have "\<not> is_space c" by (metis hd_dropWhile list.sel(1) list.distinct(1))
    from split_ws_first_char [OF this, of cs] d have "split_ws (dropWhile is_space s) \<noteq> []"
      by auto
    with e show False by (simp add: split_ws_dropWhile)
  qed
next
  assume "\<forall>c \<in> set s. is_space c"
  then show "split_ws s = []"
    unfolding split_ws_def by (simp add: split_ws_from_spaces)
qed

lemma strip_first_not_space: "strip s = c # cs \<Longrightarrow> \<not> is_space c"
  unfolding strip_def strip_by_def lstrip_by_def
  by (metis hd_dropWhile list.sel(1) list.distinct(1))

lemma strip_empty_iff: "strip s = [] \<longleftrightarrow> (\<forall>c \<in> set s. is_space c)"
proof
  assume "strip s = []"
  then have "split_ws (strip s) = []" by (simp add: split_ws_def)
  then show "\<forall>c \<in> set s. is_space c" by (simp add: split_ws_strip split_ws_empty_iff)
next
  assume "\<forall>c \<in> set s. is_space c"
  then show "strip s = []"
    by (auto simp: strip_def strip_by_def lstrip_by_def rstrip_by_def dest: set_dropWhileD)
qed

subsection \<open>Splitting and joining lines\<close>

lemma split_on_no_sep: "sep \<notin> set x \<Longrightarrow> split_on sep x = [x]"
  by (induction x) auto

lemma split_on_append_sep:
  "sep \<notin> set x \<Longrightarrow> split_on sep (x @ sep # rest) = x # split_on sep rest"
  by (induction x) auto

lemma split_on_join:
  "\<forall>l \<in> set ls. sep \<notin> set l \<Longrightarrow> ls \<noteq> [] \<Longrightarrow> split_on sep (join [sep] ls) = ls"
proof (induction "[sep]" ls rule: join.induct)
  case 1
  then show ?case by simp
next
  case (2 x)
  then show ?case by (simp add: split_on_no_sep)
next
  case (3 x y ys)
  then show ?case by (simp add: split_on_append_sep)
qed

section \<open>Properties of the validator and its handler\<close>

lemma collect_all_empty: "(\<And>x. x \<in> set xs \<Longrightarrow> f x = Inr []) \<Longrightarrow> collect f xs = Inr []"
  by (induction xs) auto

lemma concat_map_all_empty: "(\<And>x. x \<in> set xs \<Longrightarrow> f x = []) \<Longrightarrow> concat (map f xs) = []"
  by (induction xs) auto

lemma check_cardinality_empty_model: "check_cardinality instances empty_model = Inr []"
  unfolding check_cardinality_def restrictions_by_class_def empty_model_def
  by (auto intro!: collect_all_empty)

lemma check_class_membership_empty_model: "check_class_membership instances empty_model = []"
  unfolding check_class_membership_def empty_model_def
  by (auto intro!: concat_map_all_empty)

lemma check_property_domains_empty_model: "check_property_domains instances empty_model = []"
  unfolding check_property_domains_def property_definitions_def empty_model_def
  by (auto intro!: concat_map_all_empty)

text \<open>
  C4. Against the empty schema model every list of triples validates without raising, with no
  violation and no warning: the class-membership check and the domain check each yield
  nothing, and the handler's report of that result has status PASSED and reports success.
\<close>

theorem degraded_schema_passes:
  "\<exists>r. validate_against_ontology triples empty_model = Inr r \<and>
       violations r = [] \<and> warnings r = [] \<and>
       check_class_membership (group_instances triples) empty_model = [] \<and>
       check_property_domains (group_instances triples) empty_model = [] \<and>
       report r = Validated ''PASSED'' [] [] (checks_performed r) True"
  by (simp add: validate_against_ontology_def check_cardinality_empty_model
      check_class_membership_empty_model check_property_domains_empty_model report_def)

theorem degraded_schema_passes_witness:
  "\<exists>r. validate_against_ontology
         [(''http://graph-rag.example.com/document/doc-1'', RDF_TYPE,
           ''http://graph-rag.example.com/ontology#Document''),
          (''http://graph-rag.example.com/document/doc-1'',
           ''http://graph-rag.example.com/ontology/hasId'', ''doc-1'')] empty_model = Inr r \<and>
       violations r = [] \<and> warnings r = [] \<and>
       report r = Validated ''PASSED'' [] [] (checks_performed r) True"
  using degraded_schema_passes
    [of "[(''http://graph-rag.example.com/document/doc-1'', RDF_TYPE,
           ''http://graph-rag.example.com/ontology#Document''),
          (''http://graph-rag.example.com/document/doc-1'',
           ''http://graph-rag.example.com/ontology/hasId'', ''doc-1'')]"]
  by blast

text \<open>
  C5. Whenever the handler reaches the validator and the validator returns its result, the
  handler reports that result's violations and warnings with a status that is FAILED exactly
  when there is a violation, WARNING exactly when there is none but there is a warning, and
  PASSED exactly when there is neither; its success flag is true exactly when the status is
  not FAILED.
\<close>

theorem handler_status:
  assumes "truthy (documentId ev)" and "truthy (rdfS3Key ev)"
    and "get_object (case rdfBucket ev of None \<Rightarrow> B | Some b \<Rightarrow> b) (the (rdfS3Key ev)) = Inr content"
    and "validate_against_ontology (parse_turtle_simple content) m = Inr r"
  shows "\<exists>st ok. handler B get_object m ev =
            Validated st (violations r) (warnings r) (checks_performed r) ok \<and>
          (st = ''FAILED'' \<longleftrightarrow> violations r \<noteq> []) \<and>
          (st = ''WARNING'' \<longleftrightarrow> violations r = [] \<and> warnings r \<noteq> []) \<and>
          (st = ''PASSED'' \<longleftrightarrow> violations r = [] \<and> warnings r = []) \<and>
          (ok \<longleftrightarrow> st \<noteq> ''FAILED'')"
  using assms by (simp add: handler_def report_def)

theorem handler_status_witness:
  "handler ''bucket'' (\<lambda>b k. Inr ''<s> <p> <o> .'')
     \<lparr>classes = [],
      properties = [\<lparr>property_uri = ''p'', domain_uri = Some ''D'', range_uri = None\<rparr>],
      restrictions = []\<rparr>
     \<lparr>documentId = Some ''doc-1'', rdfS3Key = Some ''key'', rdfBucket = None\<rparr>
   = Validated ''WARNING'' []
       [DomainMismatch ''s'' ''p'' ''D'' [] ''Property p expects domain D'']
       [''class_membership'', ''property_domains_ranges'', ''cardinality_constraints'']
       True"
proof -
  let ?m = "\<lparr>classes = [],
      properties = [\<lparr>property_uri = ''p'', domain_uri = Some ''D'', range_uri = None\<rparr>],
      restrictions = []\<rparr>"
  let ?ev = "\<lparr>documentId = Some ''doc-1'', rdfS3Key = Some ''key'', rdfBucket = None\<rparr>"
  let ?r = "\<lparr>violations = [],
      warnings = [DomainMismatch ''s'' ''p'' ''D'' [] ''Property p expects domain D''],
      checks_performed =
        [''class_membership'', ''property_domains_ranges'', ''cardinality_constraints''],
      instances_validated = 1, triples_validated = 1\<rparr>"
  have v: "validate_against_ontology (parse_turtle_simple ''<s> <p> <o> .'') ?m = Inr ?r"
    by code_simp
  have t1: "truthy (documentId ?ev)" and t2: "truthy (rdfS3Key ?ev)"
    by (simp_all add: truthy_def)
  have g: "(\<lambda>b k. Inr ''<s> <p> <o> .'')
             (case rdfBucket ?ev of None \<Rightarrow> ''bucket'' | Some b \<Rightarrow> b) (the (rdfS3Key ?ev))
           = (Inr ''<s> <p> <o> .'' :: error + string)"
    by simp
  from handler_status [OF t1 t2 g v] show ?thesis
    by auto
qed

subsection \<open>Dictionaries\<close>

lemma map_of_dict_update:
  "map_of (dict_update k d f kvs) k' =
     (if k' = k then Some (f (case map_of kvs k of None \<Rightarrow> d | Some v \<Rightarrow> v)) else map_of kvs k')"
  by (induction kvs) auto

lemma keys_dict_update:
  "map fst (dict_update k d f kvs) =
     (if k \<in> fst ` set kvs then map fst kvs else map fst kvs @ [k])"
  by (induction kvs) force+

lemma distinct_keys_dict_update:
  "distinct (map fst kvs) \<Longrightarrow> distinct (map fst (dict_update k d f kvs))"
  by (simp add: keys_dict_update)

lemma map_of_dict_append:
  "map_of (dict_append k v dict) k' =
     (if k' = k then Some ((case map_of dict k of None \<Rightarrow> [] | Some vs \<Rightarrow> vs) @ [v])
      else map_of dict k')"
  by (simp add: dict_append_def map_of_dict_update)



subsection \<open>Grouping triples into instances\<close>

lemma distinct_keys_foldl_add_triple:
  "distinct (map fst insts) \<Longrightarrow> distinct (map fst (foldl add_triple insts ts))"
proof (induction ts arbitrary: insts)
  case Nil
  then show ?case by simp
next
  case (Cons t ts)
  have "distinct (map fst (add_triple insts t))"
    using Cons.prems by (auto simp: add_triple_def distinct_keys_dict_update split: prod.splits)
  then show ?case using Cons.IH by simp
qed

lemma distinct_keys_group_instances: "distinct (map fst (group_instances ts))"
  unfolding group_instances_def by (rule distinct_keys_foldl_add_triple) simp

lemma group_instances_lookup:
  "(uri, d) \<in> set (group_instances ts) \<Longrightarrow> map_of (group_instances ts) uri = Some d"
  using distinct_keys_group_instances by (rule map_of_is_SomeI)


subsection \<open>Loops that may raise\<close>






subsection \<open>The cardinality check\<close>






subsection \<open>Instance records and the triples they come from\<close>

lemma types_of_add_triple:
  "types_of (add_triple insts (s, q, obj)) uri =
     types_of insts uri @ (if s = uri \<and> q = RDF_TYPE then [obj] else [])"
  by (auto simp: types_of_def add_triple_def map_of_dict_update new_instance_def
      split: option.splits)

lemma values_of_add_triple:
  "values_of (add_triple insts (s, q, obj)) uri p =
     values_of insts uri p @ (if s = uri \<and> q = p \<and> q \<noteq> RDF_TYPE then [obj] else [])"
  by (auto simp: values_of_def add_triple_def map_of_dict_update map_of_dict_append
      new_instance_def split: option.splits)

lemma types_of_foldl:
  "types_of (foldl add_triple insts ts) uri =
     types_of insts uri @ map (\<lambda>(s, q, obj). obj) (filter (\<lambda>(s, q, obj). s = uri \<and> q = RDF_TYPE) ts)"
proof (induction ts arbitrary: insts)
  case Nil
  then show ?case by simp
next
  case (Cons t ts)
  obtain s q obj where t: "t = (s, q, obj)" by (cases t)
  show ?case by (simp add: Cons.IH t types_of_add_triple)
qed

lemma values_of_foldl:
  "values_of (foldl add_triple insts ts) uri p =
     values_of insts uri p @
     map (\<lambda>(s, q, obj). obj) (filter (\<lambda>(s, q, obj). s = uri \<and> q = p \<and> q \<noteq> RDF_TYPE) ts)"
proof (induction ts arbitrary: insts)
  case Nil
  then show ?case by simp
next
  case (Cons t ts)
  obtain s q obj where t: "t = (s, q, obj)" by (cases t)
  show ?case by (auto simp: Cons.IH t values_of_add_triple)
qed

text \<open>An instance record holds the objects of the type triples of its subject, and counts,
  for a predicate other than the type predicate, the triples of its subject with that
  predicate.\<close>

lemma group_instances_types:
  assumes "(uri, d) \<in> set (group_instances ts)"
  shows "types d = map (\<lambda>(s, q, obj). obj) (filter (\<lambda>(s, q, obj). s = uri \<and> q = RDF_TYPE) ts)"
  using types_of_foldl [of "[]" ts uri] group_instances_lookup [OF assms]
  by (simp add: types_of_def group_instances_def)

lemma group_instances_prop_count:
  assumes "(uri, d) \<in> set (group_instances ts)"
  shows "prop_count d p = length (filter (\<lambda>(s, q, obj). s = uri \<and> q = p \<and> q \<noteq> RDF_TYPE) ts)"
  using values_of_foldl [of "[]" ts uri p] group_instances_lookup [OF assms]
  by (auto simp: values_of_def prop_count_def group_instances_def split: option.splits)

lemma key_set_dict_update:
  "fst ` set (dict_update k d f kvs) = insert k (fst ` set kvs)"
proof -
  have "set (map fst (dict_update k d f kvs)) = insert k (set (map fst kvs))"
    unfolding keys_dict_update by auto
  then show ?thesis by simp
qed

lemma group_instances_subject:
  "(s, q, obj) \<in> set ts \<Longrightarrow> \<exists>d. (s, d) \<in> set (group_instances ts)"
proof -
  have "fst ` set insts \<union> (\<lambda>(s, q, obj). s) ` set ts \<subseteq> fst ` set (foldl add_triple insts ts)"
    for insts
  proof (induction ts arbitrary: insts)
    case Nil
    then show ?case by simp
  next
    case (Cons t ts)
    obtain s q obj where t: "t = (s, q, obj)" by (cases t)
    have "fst ` set (add_triple insts t) = insert s (fst ` set insts)"
      unfolding t add_triple_def by (simp add: key_set_dict_update)
    with Cons.IH [of "add_triple insts t"] show ?case
      by (auto simp: t)
  qed
  from this [of "[]"] show "(s, q, obj) \<in> set ts \<Longrightarrow> \<exists>d. (s, d) \<in> set (group_instances ts)"
    unfolding group_instances_def by force
qed















section \<open>Properties of the graph parser\<close>

lemma startswith_Cons: "startswith (c # cs) [x] \<longleftrightarrow> c = x"
  by (simp add: startswith_def)

lemma startswith_Nil: "\<not> startswith [] [x]"
  by (simp add: startswith_def)

lemma parse_line_tokens:
  "parse_line l =
     (let parts = split_ws l in
      if 3 \<le> length parts \<and> startswith (parts ! 0) ''<'' \<and> startswith (parts ! 1) ''<''
      then [triple_of_parts parts] else [])"
proof (cases "strip l")
  case Nil
  then have "split_ws l = []"
    by (simp add: strip_empty_iff split_ws_empty_iff)
  with Nil show ?thesis by (simp add: parse_line_def)
next
  case (Cons c cs)
  then have ns: "\<not> is_space c" by (rule strip_first_not_space)
  from split_ws_first_char [OF ns, of cs] obtain w ws where
    parts: "split_ws l = (c # w) # ws"
    using Cons split_ws_strip [of l] by auto
  show ?thesis
  proof (cases "c = CHR ''#'' \<or> c = CHR ''@''")
    case True
    then have "\<not> startswith (split_ws l ! 0) ''<''"
      unfolding parts by (auto simp: startswith_Cons)
    moreover have "parse_line l = []"
      using True Cons by (auto simp: parse_line_def startswith_Cons)
    ultimately show ?thesis by (simp add: Let_def)
  next
    case False
    then have "\<not> (strip l = [] \<or> startswith (strip l) ''#'' \<or> startswith (strip l) ''@'')"
      using Cons by (simp add: startswith_Cons)
    then show ?thesis
      by (simp add: parse_line_def Let_def split_ws_strip triple_of_parts_def del: One_nat_def)
  qed
qed

lemma parse_turtle_simple_lines:
  assumes "\<forall>l \<in> set ls. newline \<notin> set l"
  shows "parse_turtle_simple (join [newline] ls) = concat (map parse_line ls)"
proof (cases "ls = []")
  case True
  then show ?thesis
    by (simp add: parse_turtle_simple_def parse_line_def strip_def strip_by_def
        lstrip_by_def rstrip_by_def)
next
  case False
  with assms show ?thesis
    by (simp add: parse_turtle_simple_def split_on_join)
qed


lemma startswith_appendE:
  assumes "startswith s p"
  obtains rest where "s = p @ rest"
  using assms unfolding startswith_def by (metis append_take_drop_id)

lemma replace_at_prefix:
  "old \<noteq> [] \<Longrightarrow> startswith s old \<Longrightarrow>
   replace old new s = new @ replace old new (drop (length old) s)"
  by (subst replace.simps) (auto simp: startswith_def)

lemma format_uri_head: "\<exists>c cs. format_uri p = c # cs \<and> \<not> is_space c"
proof -
  have ns: "\<not> is_space CHR ''r''" "\<not> is_space CHR ''x''" "\<not> is_space CHR ''d''"
    "\<not> is_space CHR ''e''" "\<not> is_space CHR ''o''" "\<not> is_space CHR ''<''"
    by (simp_all add: is_space_def ord_def)
  consider (rdf) "startswith p ''rdf:''" | (xsd) "\<not> startswith p ''rdf:''" "startswith p ''xsd:''"
    | (doc) "\<not> startswith p ''rdf:''" "\<not> startswith p ''xsd:''" "startswith p NAMESPACE_DOC"
    | (entity) "\<not> startswith p ''rdf:''" "\<not> startswith p ''xsd:''" "\<not> startswith p NAMESPACE_DOC"
        "startswith p NAMESPACE_ENTITY"
    | (onto) "\<not> startswith p ''rdf:''" "\<not> startswith p ''xsd:''" "\<not> startswith p NAMESPACE_DOC"
        "\<not> startswith p NAMESPACE_ENTITY" "startswith p NAMESPACE_ONTO"
    | (other) "\<not> startswith p ''rdf:''" "\<not> startswith p ''xsd:''" "\<not> startswith p NAMESPACE_DOC"
        "\<not> startswith p NAMESPACE_ENTITY" "\<not> startswith p NAMESPACE_ONTO"
    by blast
  then show ?thesis
  proof cases
    case rdf
    then obtain cs where "p = CHR ''r'' # cs"
      by (cases p) (auto simp: startswith_def)
    with rdf ns show ?thesis by (simp add: format_uri_def)
  next
    case xsd
    then obtain cs where "p = CHR ''x'' # cs"
      by (cases p) (auto simp: startswith_def)
    with xsd ns show ?thesis by (simp add: format_uri_def)
  next
    case doc
    have "NAMESPACE_DOC \<noteq> []" by (simp add: NAMESPACE_DOC_def NAMESPACE_BASE_def)
    from replace_at_prefix [OF this doc(3), of "''doc:''"] doc ns show ?thesis
      by (simp add: format_uri_def)
  next
    case entity
    have "NAMESPACE_ENTITY \<noteq> []" by (simp add: NAMESPACE_ENTITY_def NAMESPACE_BASE_def)
    from replace_at_prefix [OF this entity(4), of "''entity:''"] entity ns show ?thesis
      by (simp add: format_uri_def)
  next
    case onto
    have "NAMESPACE_ONTO \<noteq> []" by (simp add: NAMESPACE_ONTO_def NAMESPACE_BASE_def)
    from replace_at_prefix [OF this onto(5), of "''onto:''"] onto ns show ?thesis
      by (simp add: format_uri_def)
  next
    case other
    with ns show ?thesis by (simp add: format_uri_def)
  qed
qed

lemma continuation_line_dropped:
  assumes "\<not> startswith (format_uri (predicate t)) ''<''"
  shows "parse_line (turtle_triple_line n (i, t)) = []"
proof -
  from format_uri_head obtain c cs where f: "format_uri (predicate t) = c # cs"
    and ns: "\<not> is_space c"
    by blast
  from assms f have c: "c \<noteq> CHR ''<''" by (simp add: startswith_Cons)
  let ?rest = "cs @ '' '' @ turtle_object (object t) @
        (if int i < int n - 1 then '' ;'' else '' .'')"
  have sp: "is_space CHR '' ''" by (simp add: is_space_def ord_def)
  have line: "turtle_triple_line n (i, t) = ''    '' @ c # ?rest"
    by (simp add: turtle_triple_line_def f)
  have "split_ws (turtle_triple_line n (i, t)) = split_ws (dropWhile is_space (''    '' @ c # ?rest))"
    unfolding line by (simp only: split_ws_dropWhile)
  also have "dropWhile is_space (''    '' @ c # ?rest) = c # ?rest"
    using sp ns by simp
  finally obtain w ws where "split_ws (turtle_triple_line n (i, t)) = (c # w) # ws"
    using split_ws_first_char [OF ns, of ?rest] by auto
  with c show ?thesis
    by (simp add: parse_line_tokens startswith_Cons Let_def)
qed

lemma builder_predicate_prefixed:
  assumes "p = ''rdf:type'' \<or> startswith p NAMESPACE_ONTO"
  shows "\<not> startswith (format_uri p) ''<''"
  using assms
proof
  assume "p = ''rdf:type''"
  then show ?thesis by (simp add: format_uri_def startswith_def)
next
  assume o: "startswith p NAMESPACE_ONTO"
  have ne: "NAMESPACE_ONTO \<noteq> []" by (simp add: NAMESPACE_ONTO_def NAMESPACE_BASE_def)
  from o obtain rest where p: "p = NAMESPACE_ONTO @ rest"
    by (rule startswith_appendE)
  have heads: "\<not> startswith p ''rdf:''" "\<not> startswith p ''xsd:''" "\<not> startswith p NAMESPACE_DOC"
    "\<not> startswith p NAMESPACE_ENTITY"
    unfolding p by (simp_all add: startswith_def NAMESPACE_ONTO_def NAMESPACE_DOC_def
        NAMESPACE_ENTITY_def NAMESPACE_BASE_def)
  show ?thesis
    using replace_at_prefix [OF ne o, of "''onto:''"] heads o
    by (simp add: format_uri_def startswith_def)
qed

text \<open>
  C7 (amended). The parser works on one line at a time: the triples of a text are those of its
  lines, in order, each line read on its own. A line yields a triple exactly when it has at
  least three white-space separated tokens and the first two both begin with \<open><\<close> (a closing
  bracket is not required); the triple is the first two tokens with leading and trailing angle
  brackets removed and, as object, the remaining tokens joined by single blanks, with trailing
  blanks and periods removed and then leading and trailing angle brackets and double quotes
  removed. Every other line yields nothing: blank lines, lines beginning with \<open>#\<close> or \<open>@\<close>, and
  the indented continuation lines of the compact form whenever the formatted predicate does not
  begin with \<open><\<close>, as for every predicate the builder writes.
\<close>

theorem parse_turtle_simple_line_rule:
  "((\<forall>l \<in> set ls. newline \<notin> set l) \<longrightarrow>
      parse_turtle_simple (join [newline] ls) = concat (map parse_line ls)) \<and>
   parse_line l =
     (let parts = split_ws l in
      if 3 \<le> length parts \<and> startswith (parts ! 0) ''<'' \<and> startswith (parts ! 1) ''<''
      then [(strip_chars ''<>'' (parts ! 0),
             strip_chars ''<>'' (parts ! 1),
             strip_chars [CHR ''<'', CHR ''>'', dquote]
               (rstrip_chars '' .'' (join '' '' (drop 2 parts))))]
      else []) \<and>
   (strip l = [] \<or> startswith (strip l) ''#'' \<or> startswith (strip l) ''@'' \<longrightarrow> parse_line l = []) \<and>
   (\<not> startswith (format_uri (predicate t)) ''<'' \<longrightarrow> parse_line (turtle_triple_line n (i, t)) = []) \<and>
   (predicate t = ''rdf:type'' \<or> startswith (predicate t) NAMESPACE_ONTO \<longrightarrow>
      parse_line (turtle_triple_line n (i, t)) = [])"
proof -
  have a: "(\<forall>l \<in> set ls. newline \<notin> set l) \<longrightarrow>
      parse_turtle_simple (join [newline] ls) = concat (map parse_line ls)"
    using parse_turtle_simple_lines by blast
  have b: "parse_line l =
     (let parts = split_ws l in
      if 3 \<le> length parts \<and> startswith (parts ! 0) ''<'' \<and> startswith (parts ! 1) ''<''
      then [(strip_chars ''<>'' (parts ! 0),
             strip_chars ''<>'' (parts ! 1),
             strip_chars [CHR ''<'', CHR ''>'', dquote]
               (rstrip_chars '' .'' (join '' '' (drop 2 parts))))]
      else [])"
    using parse_line_tokens [of l] by (simp only: triple_of_parts_def)
  have c: "strip l = [] \<or> startswith (strip l) ''#'' \<or> startswith (strip l) ''@'' \<longrightarrow> parse_line l = []"
    by (auto simp: parse_line_def)
  have d: "\<not> startswith (format_uri (predicate t)) ''<'' \<longrightarrow>
      parse_line (turtle_triple_line n (i, t)) = []"
    using continuation_line_dropped by blast
  have e: "predicate t = ''rdf:type'' \<or> startswith (predicate t) NAMESPACE_ONTO \<longrightarrow>
      parse_line (turtle_triple_line n (i, t)) = []"
    using continuation_line_dropped builder_predicate_prefixed by blast
  show ?thesis
    by (intro conjI) (fact a b c d e)+
qed

theorem parse_turtle_simple_line_rule_witness:
  "parse_turtle_simple
     (join [newline]
        [''# staged graph'',
         ''<http://graph-rag.example.com/document/doc-1>'',
         ''    onto:hasId <x> ;'',
         ''<s> <p> <o> .'']) = [(''s'', ''p'', ''o'')] \<and>
   parse_line (turtle_triple_line 2
     (0, \<lparr>subject = ''http://graph-rag.example.com/document/doc-1'', predicate = ''rdf:type'',
          object = ''http://graph-rag.example.com/ontology/Document''\<rparr>)) = []"
proof -
  let ?ls = "[''# staged graph'',
         ''<http://graph-rag.example.com/document/doc-1>'',
         ''    onto:hasId <x> ;'',
         ''<s> <p> <o> .'']"
  let ?t = "\<lparr>subject = ''http://graph-rag.example.com/document/doc-1'', predicate = ''rdf:type'',
          object = ''http://graph-rag.example.com/ontology/Document''\<rparr>"
  note rule = parse_turtle_simple_line_rule [of ?ls "[]" ?t 2 0]
  have nl: "\<forall>l \<in> set ?ls. newline \<notin> set l"
    by (simp add: newline_def)
  have lines: "concat (map parse_line ?ls) = [(''s'', ''p'', ''o'')]"
    by code_simp
  from rule [THEN conjunct1] nl lines
  have one: "parse_turtle_simple (join [newline] ?ls) = [(''s'', ''p'', ''o'')]"
    by (simp only:)
  have "predicate ?t = ''rdf:type'' \<or> startswith (predicate ?t) NAMESPACE_ONTO"
    by simp
  with rule [THEN conjunct2, THEN conjunct2, THEN conjunct2, THEN conjunct2]
  have two: "parse_line (turtle_triple_line 2 (0, ?t)) = []"
    by (rule mp)
  show ?thesis
    by (intro conjI) (fact one two)+
qed

theorem parse_turtle_simple_line_rule_counterexample:
  "parse_turtle_simple ''<a <b c'' = [(''a'', ''b'', ''c'')] \<and>
   split_ws ''<a <b c'' = [''<a'', ''<b'', ''c''] \<and>
   \<not> bracketed ''<a'' \<and> \<not> bracketed ''<b''"
  by code_simp

subsection \<open>The compact form\<close>

text \<open>The compact form of a builder graph is lost on the parser: the subject stands alone on
  its line and every statement of the block is a continuation line.\<close>

lemma compact_form_parses_to_nothing:
  "parse_turtle_simple (serialize_turtle
     (generate_rdf_graph ''2020-01-01T00:00:00'' ''doc-1'' ''Hello Acme'' []
        \<lparr>keywords_field = Some ''alpha'', documentType = None, author = None\<rparr> ''f.txt'')) = []"
  by code_simp

lemma compact_form_example:
  "serialize_turtle
     [\<lparr>subject = ''http://graph-rag.example.com/document/doc-1'', predicate = ''rdf:type'',
       object = ''http://graph-rag.example.com/ontology/Document''\<rparr>,
      \<lparr>subject = ''http://graph-rag.example.com/document/doc-1'',
       predicate = ''http://graph-rag.example.com/ontology/hasId'', object = quoted ''doc-1''\<rparr>] =
   join [newline]
     [''@prefix rdf: <http://www.w3.org/1999/02/22-rdf-syntax-ns#> .'',
      ''@prefix xsd: <http://www.w3.org/2001/XMLSchema#> .'',
      ''@prefix doc: <http://graph-rag.example.com/document/> .'',
      ''@prefix entity: <http://graph-rag.example.com/entity/> .'',
      ''@prefix onto: <http://graph-rag.example.com/ontology/> .'',
      [],
      ''<http://graph-rag.example.com/document/doc-1>'',
      ''    rdf:type <http://graph-rag.example.com/ontology/Document> ;'',
      ''    onto:hasId '' @ quoted ''doc-1'' @ '' .'',
      []]"
  by code_simp

section \<open>The fully-qualified form read back\<close>

lemma no_space_simps [simp]:
  "no_space []"
  "no_space (c # cs) \<longleftrightarrow> \<not> is_space c \<and> no_space cs"
  "no_space (xs @ ys) \<longleftrightarrow> no_space xs \<and> no_space ys"
  by (simp_all add: no_space_def)

lemma no_space_iff: "no_space s \<longleftrightarrow> (\<forall>c \<in> set s. \<not> is_space c)"
  by (simp add: no_space_def list_all_iff)

lemma is_space_newline: "is_space newline"
  by (simp add: is_space_def newline_def ord_def)

lemma no_space_no_newline: "no_space s \<Longrightarrow> newline \<notin> set s"
  using is_space_newline by (auto simp: no_space_iff)

lemma ntriples_predicate_head: "startswith (ntriples_predicate p) ''<''"
  by (auto simp: ntriples_predicate_def format_uri_full_def startswith_def)

lemma ntriples_object_not_empty: "ntriples_object obj \<noteq> []"
  by (cases obj) (auto simp: ntriples_object_def startswith_def)

lemma split_ws_ntriples_line:
  assumes "clean_triple t"
  shows "split_ws (ntriples_line t) =
     ntriples_subject (subject t) # ntriples_predicate (predicate t) #
     (split_ws (ntriples_object (object t)) @ [''.''])"
proof -
  have sp: "is_space CHR '' ''" and dot: "\<not> is_space CHR ''.''"
    and br: "\<not> is_space CHR ''<''" "\<not> is_space CHR ''>''"
    by (simp_all add: is_space_def ord_def)
  have s: "\<forall>c \<in> set (ntriples_subject (subject t)). \<not> is_space c"
    and s0: "ntriples_subject (subject t) \<noteq> []"
    using assms br by (auto simp: clean_triple_def ntriples_subject_def no_space_iff)
  have p: "\<forall>c \<in> set (ntriples_predicate (predicate t)). \<not> is_space c"
    using assms by (simp add: clean_triple_def no_space_iff)
  have p0: "ntriples_predicate (predicate t) \<noteq> []"
    using ntriples_predicate_head [of "predicate t"] by (auto simp: startswith_def)
  have d: "split_ws ''.'' = [''.'']"
    using dot by (simp add: split_ws_def)
  have "ntriples_line t =
      ntriples_subject (subject t) @ CHR '' '' #
      (ntriples_predicate (predicate t) @ CHR '' '' #
       (ntriples_object (object t) @ CHR '' '' # ''.''))"
    by (simp add: ntriples_line_def)
  then show ?thesis
    by (simp add: split_ws_append_space [OF sp] split_ws_word [OF s s0]
        split_ws_word [OF p p0] d)
qed

lemma parse_ntriples_line:
  assumes "clean_triple t"
  shows "parse_line (ntriples_line t) = [roundtrip_triple t]"
proof -
  have "startswith (ntriples_subject (subject t)) ''<''"
    by (simp add: ntriples_subject_def startswith_def)
  then show ?thesis
    unfolding parse_line_tokens split_ws_ntriples_line [OF assms]
    by (simp add: triple_of_parts_def roundtrip_triple_def ntriples_predicate_head)
qed

lemma ntriples_line_no_newline:
  assumes "clean_triple t"
  shows "newline \<notin> set (ntriples_line t)"
proof -
  have nl: "newline \<noteq> CHR '' ''" "newline \<noteq> CHR ''.''" "newline \<noteq> CHR ''<''" "newline \<noteq> CHR ''>''"
    by (simp_all add: newline_def)
  have "newline \<notin> set (subject t)" and "newline \<notin> set (ntriples_predicate (predicate t))"
    and "newline \<notin> set (object t)"
    using assms by (simp_all add: clean_triple_def no_space_no_newline)
  with nl show ?thesis
    by (auto simp: ntriples_line_def ntriples_subject_def ntriples_object_def)
qed

lemma parse_serialize_ntriples:
  assumes "\<forall>t \<in> set g. clean_triple t"
  shows "parse_turtle_simple (serialize_ntriples g) = map roundtrip_triple g"
proof -
  have "\<forall>l \<in> set (map ntriples_line g). newline \<notin> set l"
    using assms by (auto simp: ntriples_line_no_newline)
  then have "parse_turtle_simple (serialize_ntriples g) = concat (map parse_line (map ntriples_line g))"
    unfolding serialize_ntriples_def by (rule parse_turtle_simple_lines)
  also have "\<dots> = map roundtrip_triple g"
    using assms by (induction g) (simp_all add: parse_ntriples_line)
  finally show ?thesis .
qed

subsection \<open>The triples of the builder can be read back\<close>

lemma replace_single:
  "replace [x] new s = concat (map (\<lambda>c. if c = x then new else [c]) s)"
proof (induction s)
  case Nil
  then show ?case by (subst replace.simps) simp
next
  case (Cons c s)
  show ?case
    by (subst replace.simps) (simp add: Cons startswith_def)
qed

lemma special_chars_distinct:
  "backslash \<noteq> dquote" "backslash \<noteq> newline" "backslash \<noteq> carriage_return" "backslash \<noteq> tab"
  "dquote \<noteq> newline" "dquote \<noteq> carriage_return" "dquote \<noteq> tab"
  "newline \<noteq> carriage_return" "newline \<noteq> tab" "carriage_return \<noteq> tab"
  "backslash \<noteq> CHR ''n''" "backslash \<noteq> CHR ''r''" "backslash \<noteq> CHR ''t''"
  "dquote \<noteq> CHR ''n''" "dquote \<noteq> CHR ''r''" "dquote \<noteq> CHR ''t''"
  "newline \<noteq> CHR ''n''" "newline \<noteq> CHR ''r''" "newline \<noteq> CHR ''t''"
  "carriage_return \<noteq> CHR ''n''" "carriage_return \<noteq> CHR ''r''" "carriage_return \<noteq> CHR ''t''"
  "tab \<noteq> CHR ''n''" "tab \<noteq> CHR ''r''" "tab \<noteq> CHR ''t''"
  by (simp_all add: backslash_def dquote_def newline_def carriage_return_def tab_def)

lemma concat_map_concat_map:
  "concat (map f (concat (map g xs))) = concat (map (\<lambda>x. concat (map f (g x))) xs)"
  by (induction xs) simp_all

lemma escape_literal_chars: "escape_literal t = concat (map escape_char t)"
proof -
  have "(\<lambda>c. concat (map (\<lambda>c. if c = tab then [backslash, CHR ''t''] else [c])
          (concat (map (\<lambda>c. if c = carriage_return then [backslash, CHR ''r''] else [c])
            (concat (map (\<lambda>c. if c = newline then [backslash, CHR ''n''] else [c])
              (concat (map (\<lambda>c. if c = dquote then [backslash, dquote] else [c])
                (if c = backslash then [backslash, backslash] else [c])))))))))
        = escape_char"
    using special_chars_distinct special_chars_distinct [symmetric]
    by (intro ext) (simp add: escape_char_def)
  then show ?thesis
    unfolding escape_literal_def replace_single
    by (simp add: concat_map_concat_map)
qed


lemma escape_literal_no_newline: "newline \<notin> set (escape_literal t)"
  using special_chars_distinct special_chars_distinct [symmetric]
  by (auto simp: escape_literal_chars escape_char_def split: if_splits)

lemma ord_less_256: "ord c < 256"
  by (simp add: ord_def)

lemma hex_char_no_space: "d < 16 \<Longrightarrow> \<not> is_space (hex_char d)"
  by (auto simp: hex_char_def is_space_def ord_def Let_def)

lemma percent_byte_no_space: "b < 256 \<Longrightarrow> no_space (percent_byte b)"
proof -
  assume b: "b < 256"
  then have "b div 16 < 16" and "b mod 16 < 16" by simp_all
  moreover have "\<not> is_space CHR ''%''" by (simp add: is_space_def ord_def)
  ultimately show ?thesis by (simp add: percent_byte_def hex_char_no_space)
qed

lemma quote_safe_no_space: "quote_safe c \<Longrightarrow> \<not> is_space c"
  by (auto simp: quote_safe_def is_space_def is_upper_def is_lower_def is_digit_def Let_def ord_def)

lemma quote_char_no_space: "no_space (quote_char c)"
proof -
  have "ord c < 256" by (rule ord_less_256)
  then have "192 + ord c div 64 < 256" and "128 + ord c mod 64 < 256" by simp_all
  then show ?thesis
    by (auto simp: quote_char_def Let_def quote_safe_no_space percent_byte_no_space)
qed

lemma quote_no_space: "no_space (quote s)"
  unfolding quote_def by (induction s) (simp_all add: quote_char_no_space)

lemma digit_char_no_space: "d < 10 \<Longrightarrow> \<not> is_space (digit_char d)"
  by (auto simp: digit_char_def is_space_def ord_def Let_def)

lemma show_nat_no_space: "no_space (show_nat n)"
proof (induction n rule: show_nat.induct)
  case (1 n)
  show ?case
  proof (cases "n < 10")
    case True
    then show ?thesis by (subst show_nat.simps) (simp add: digit_char_no_space)
  next
    case False
    have "n mod 10 < 10" by simp
    with False "1.IH" show ?thesis
      by (subst show_nat.simps) (simp add: digit_char_no_space)
  qed
qed

lemma show_int_no_space: "no_space (show_int i)"
proof -
  have "\<not> is_space CHR ''-''" by (simp add: is_space_def ord_def)
  then show ?thesis by (simp add: show_int_def show_nat_no_space)
qed

lemma ntriples_predicate_rdf_type:
  "ntriples_predicate ''rdf:type'' = ''<http://www.w3.org/1999/02/22-rdf-syntax-ns#type>''"
  by (simp add: ntriples_predicate_def format_uri_full_def startswith_def)

lemma ntriples_predicate_onto:
  "ntriples_predicate (NAMESPACE_ONTO @ name) = ''<'' @ NAMESPACE_ONTO @ name @ ''>''"
  by (simp add: ntriples_predicate_def format_uri_full_def startswith_def
      NAMESPACE_ONTO_def NAMESPACE_BASE_def)

lemma no_space_namespaces:
  "no_space NAMESPACE_DOC" "no_space NAMESPACE_ENTITY" "no_space NAMESPACE_ONTO"
  by (simp_all add: NAMESPACE_DOC_def NAMESPACE_ENTITY_def NAMESPACE_ONTO_def
      NAMESPACE_BASE_def is_space_def ord_def)

lemma no_space_rdf_type: "no_space (ntriples_predicate ''rdf:type'')"
  unfolding ntriples_predicate_rdf_type by (simp add: is_space_def ord_def)

lemma no_space_onto_predicate:
  "no_space (ntriples_predicate (NAMESPACE_ONTO @ name)) \<longleftrightarrow> no_space name"
  unfolding ntriples_predicate_onto
  by (simp add: no_space_namespaces) (simp add: is_space_def ord_def)

lemma quoted_no_newline: "newline \<in> set (quoted s) \<longleftrightarrow> newline \<in> set s"
  by (simp add: quoted_def newline_def dquote_def)

lemma typed_literal_no_newline:
  "newline \<in> set (typed_literal s ty) \<longleftrightarrow> newline \<in> set s \<or> newline \<in> set ty"
  by (simp add: typed_literal_def quoted_no_newline) (simp add: newline_def)

lemmas clean_facts =
  clean_triple_def no_space_rdf_type no_space_onto_predicate no_space_namespaces
  no_space_no_newline quoted_no_newline typed_literal_no_newline
  escape_literal_no_newline quote_no_space show_int_no_space

lemma newline_eq_iff: "newline = c \<longleftrightarrow> ord c = 10" "c = newline \<longleftrightarrow> ord c = 10"
proof -
  have "ord newline = 10" by (simp add: newline_def ord_def)
  moreover have "c = newline" if "ord c = 10"
  proof -
    from that have "of_char c = (of_char newline :: nat)"
      by (simp add: ord_def newline_def)
    then show ?thesis by simp
  qed
  ultimately show "newline = c \<longleftrightarrow> ord c = 10" "c = newline \<longleftrightarrow> ord c = 10"
    by auto
qed

lemmas char_facts = is_space_def newline_eq_iff ord_def

lemma document_triples_clean:
  assumes "no_space document_id" and "newline \<notin> set now"
  shows "\<forall>t \<in> set (document_triples now document_id text_content file_name). clean_triple t"
  using assms by (simp add: document_triples_def doc_uri_of_def Let_def clean_facts char_facts)

lemma keyword_triples_clean:
  assumes "no_space doc_uri"
  shows "\<forall>t \<in> set (keyword_triples doc_uri kw). clean_triple t"
  using assms by (simp add: keyword_triples_def Let_def clean_facts char_facts)

lemma keywords_block_clean:
  assumes "no_space doc_uri"
  shows "\<forall>t \<in> set (keywords_block doc_uri md). clean_triple t"
  using keyword_triples_clean [OF assms] by (auto simp: keywords_block_def)

lemma document_type_block_clean:
  assumes "no_space doc_uri"
  shows "\<forall>t \<in> set (document_type_block doc_uri md). clean_triple t"
  using assms by (auto simp: document_type_block_def clean_facts char_facts)

lemma author_block_clean:
  assumes "no_space doc_uri"
  shows "\<forall>t \<in> set (author_block doc_uri md). clean_triple t"
  using assms by (auto simp: author_block_def Let_def clean_facts char_facts)

lemma entity_triples_clean:
  assumes "no_space chunk_uri"
  shows "\<forall>t \<in> set (entity_triples chunk_uri (w, ''Entity'')). clean_triple t"
  using assms by (simp add: entity_triples_def Let_def clean_facts char_facts)

lemma chunk_triples_clean:
  assumes "no_space doc_uri"
  shows "\<forall>t \<in> set (chunk_triples doc_uri ch). clean_triple t"
proof -
  let ?id = "case chunkId ch of None \<Rightarrow> 0 | Some i \<Rightarrow> i"
  let ?uri = "doc_uri @ ''/chunk/'' @ show_int ?id"
  have u: "no_space ?uri"
    using assms by (simp add: clean_facts char_facts)
  have ents: "\<forall>t \<in> set (concat (map (entity_triples ?uri) (extract_entities_simple x))). clean_triple t"
    for x
    using entity_triples_clean [OF u] by (auto simp: extract_entities_simple_eq)
  show ?thesis
    using assms u ents unfolding chunk_triples_def Let_def
    by (simp add: clean_facts char_facts ball_Un)
qed

lemma generate_rdf_graph_clean:
  assumes "no_space document_id" and "newline \<notin> set now"
  shows "\<forall>t \<in> set (generate_rdf_graph now document_id text_content chunks md file_name).
           clean_triple t"
proof -
  have d: "no_space (doc_uri_of document_id)"
    using assms(1) by (simp add: doc_uri_of_def no_space_namespaces)
  show ?thesis
    using document_triples_clean [OF assms] keywords_block_clean [OF d]
      document_type_block_clean [OF d] author_block_clean [OF d] chunk_triples_clean [OF d]
    by (auto simp: generate_rdf_graph_def Let_def)
qed





section \<open>Builder graphs and the class-membership check\<close>

lemma check_class_membership_no_hash:
  assumes "\<forall>(u, d) \<in> set insts. \<forall>c \<in> set (types d). \<not> startswith c ONTOLOGY_HASH_PREFIX"
  shows "check_class_membership insts model = []"
  unfolding check_class_membership_def Let_def
  using assms by (auto intro!: concat_map_all_empty)

lemma group_instances_type_objects:
  assumes "(u, d) \<in> set (group_instances ts)" and "c \<in> set (types d)"
  shows "(u, RDF_TYPE, c) \<in> set ts"
  using assms(2) unfolding group_instances_types [OF assms(1)] by auto

lemma check_class_membership_triples:
  assumes "\<forall>(s, p, obj) \<in> set ts. p = RDF_TYPE \<longrightarrow> \<not> startswith obj ONTOLOGY_HASH_PREFIX"
  shows "check_class_membership (group_instances ts) model = []"
proof (rule check_class_membership_no_hash, clarify)
  fix u d c
  assume i: "(u, d) \<in> set (group_instances ts)" and c: "c \<in> set (types d)"
    and h: "startswith c ONTOLOGY_HASH_PREFIX"
  from i c have "(u, RDF_TYPE, c) \<in> set ts" by (rule group_instances_type_objects)
  with assms h show False by auto
qed

lemma startswith_append: "startswith (p @ rest) p"
  by (simp add: startswith_def)

lemma builder_object_not_hash:
  assumes "builder_object obj"
  shows "\<not> startswith obj ONTOLOGY_HASH_PREFIX"
proof
  assume h: "startswith obj ONTOLOGY_HASH_PREFIX"
  then obtain rest where obj: "obj = ONTOLOGY_HASH_PREFIX @ rest"
    by (rule startswith_appendE)
  from assms show False
    unfolding obj builder_object_def
    by (simp add: startswith_def ONTOLOGY_HASH_PREFIX_def NAMESPACE_DOC_def NAMESPACE_ENTITY_def
        NAMESPACE_ONTO_def NAMESPACE_BASE_def dquote_def)
qed

lemma builder_object_simps:
  "builder_object (quoted s)" "builder_object (typed_literal s ty)"
  "builder_object (NAMESPACE_DOC @ x)" "builder_object (NAMESPACE_ENTITY @ x)"
  "builder_object (NAMESPACE_ONTO @ x)" "builder_object (doc_uri_of x)"
  by (simp_all add: builder_object_def quoted_def typed_literal_def startswith_def doc_uri_of_def)

lemma generate_rdf_graph_objects:
  "\<forall>t \<in> set (generate_rdf_graph now document_id text_content chunks md file_name).
     builder_object (object t)"
proof -
  have u: "builder_object (doc_uri_of document_id @ x)" for x
    using builder_object_simps(3) [of "document_id @ x"] by (simp add: doc_uri_of_def)
  have d: "\<forall>t \<in> set (document_triples now document_id text_content file_name).
      builder_object (object t)"
    by (simp add: document_triples_def Let_def builder_object_simps)
  have k: "\<forall>t \<in> set (keywords_block (doc_uri_of document_id) md). builder_object (object t)"
    by (auto simp: keywords_block_def keyword_triples_def Let_def builder_object_simps)
  have ty: "\<forall>t \<in> set (document_type_block (doc_uri_of document_id) md). builder_object (object t)"
    by (auto simp: document_type_block_def builder_object_simps)
  have a: "\<forall>t \<in> set (author_block (doc_uri_of document_id) md). builder_object (object t)"
    by (auto simp: author_block_def Let_def builder_object_simps)
  have c: "\<forall>t \<in> set (chunk_triples (doc_uri_of document_id) ch). builder_object (object t)" for ch
    by (auto simp: chunk_triples_def entity_triples_def Let_def builder_object_simps u)
  show ?thesis
    using d k ty a c by (auto simp: generate_rdf_graph_def Let_def)
qed

lemma builder_triple_kinds:
  "\<forall>t \<in> set (generate_rdf_graph now document_id text_content chunks md file_name).
     (predicate t = ''rdf:type'' \<and> object t \<in> set builder_classes) \<or>
     predicate t \<in> set builder_properties"
proof -
  define K where "K = (\<lambda>t :: triple. (predicate t = ''rdf:type'' \<and> object t \<in> set builder_classes) \<or>
     predicate t \<in> set builder_properties)"
  have d: "\<forall>t \<in> set (document_triples now document_id text_content file_name). K t"
    by (simp add: K_def document_triples_def Let_def builder_classes_def builder_properties_def)
  have k1: "\<forall>t \<in> set (keyword_triples u kw). K t" for u kw
    by (simp add: K_def keyword_triples_def Let_def builder_classes_def builder_properties_def)
  have k: "\<forall>t \<in> set (keywords_block u md). K t" for u
    using k1 by (auto simp: keywords_block_def)
  have ty: "\<forall>t \<in> set (document_type_block u md). K t" for u
    by (auto simp: K_def document_type_block_def builder_properties_def)
  have a: "\<forall>t \<in> set (author_block u md). K t" for u
    by (auto simp: K_def author_block_def Let_def builder_classes_def builder_properties_def)
  have e: "\<forall>t \<in> set (entity_triples cu (w, ''Entity'')). K t" for cu w
    by (simp add: K_def entity_triples_def Let_def builder_classes_def builder_properties_def)
  have ents: "\<forall>t \<in> set (concat (map (entity_triples cu) (extract_entities_simple x))). K t"
    for cu x
    using e by (auto simp: extract_entities_simple_eq)
  have c: "\<forall>t \<in> set (chunk_triples u ch). K t" for u ch
  proof -
    let ?cu = "u @ ''/chunk/'' @ show_int (case chunkId ch of None \<Rightarrow> 0 | Some i \<Rightarrow> i)"
    let ?x = "case chunk_text ch of None \<Rightarrow> [] | Some t \<Rightarrow> t"
    have fixed: "\<forall>t \<in> set (take 6 (chunk_triples u ch)). K t"
      by (simp add: K_def chunk_triples_def Let_def builder_classes_def builder_properties_def)
    have rest: "drop 6 (chunk_triples u ch) = concat (map (entity_triples ?cu) (extract_entities_simple ?x))"
      by (simp add: chunk_triples_def Let_def)
    have "set (chunk_triples u ch) = set (take 6 (chunk_triples u ch)) \<union> set (drop 6 (chunk_triples u ch))"
      by (metis append_take_drop_id set_append)
    with fixed ents [of ?cu ?x] rest show ?thesis by auto
  qed
  have "\<forall>t \<in> set (generate_rdf_graph now document_id text_content chunks md file_name). K t"
    using d k ty a c by (auto simp: generate_rdf_graph_def Let_def)
  then show ?thesis by (simp add: K_def)
qed

lemma builder_classes_read_back:
  "list_all (\<lambda>c. strip_chars [CHR ''<'', CHR ''>'', dquote]
        (rstrip_chars '' .'' (join '' '' (split_ws (ntriples_object c) @ [''.'']))) = c \<and>
      startswith c NAMESPACE_ONTO \<and> \<not> startswith c ONTOLOGY_HASH_PREFIX) builder_classes"
  by code_simp

lemma builder_properties_read_back:
  "list_all (\<lambda>p. strip_chars ''<>'' (ntriples_predicate p) = p \<and> p \<noteq> RDF_TYPE) builder_properties"
  by code_simp

lemma roundtrip_builder_triple:
  assumes "(predicate t = ''rdf:type'' \<and> object t \<in> set builder_classes) \<or>
     predicate t \<in> set builder_properties"
  shows "fst (snd (roundtrip_triple t)) = RDF_TYPE \<longrightarrow>
     \<not> startswith (snd (snd (roundtrip_triple t))) ONTOLOGY_HASH_PREFIX"
  using assms
proof
  assume "predicate t = ''rdf:type'' \<and> object t \<in> set builder_classes"
  with builder_classes_read_back show ?thesis
    by (auto simp: roundtrip_triple_def list_all_iff)
next
  assume "predicate t \<in> set builder_properties"
  with builder_properties_read_back
  have "fst (snd (roundtrip_triple t)) \<noteq> RDF_TYPE"
    by (auto simp: roundtrip_triple_def list_all_iff)
  then show ?thesis by simp
qed

lemma check_property_domains_kind:
  "w \<in> set (check_property_domains insts model) \<Longrightarrow> issue_type w = ''domain_mismatch''"
  by (auto simp: check_property_domains_def Let_def split: option.splits if_splits)

text \<open>
  C10. For every graph the builder produces, the class-membership check yields no
  \<open>undefined_class\<close> warning, whatever the schema's class set: every type triple of the builder
  has its object under \<open>http://graph-rag.example.com/ontology/\<close>, and no object the builder writes
  begins with \<open>http://graph-rag.example.com/ontology#\<close>, the only prefix the check considers. This
  holds for the triples of the graph as the builder wrote them, however their subjects and
  predicates are rendered for the validator, and for the triples parsed from the
  fully-qualified serialization of a graph whose document identifier has no white space.
\<close>

theorem builder_types_never_undefined:
  "check_class_membership
     (group_instances (map (\<lambda>t. (fs (subject t), fp (predicate t), object t))
        (generate_rdf_graph now document_id text_content chunks md file_name))) model = [] \<and>
   (\<forall>r. validate_against_ontology (map (\<lambda>t. (fs (subject t), fp (predicate t), object t))
          (generate_rdf_graph now document_id text_content chunks md file_name)) model = Inr r \<longrightarrow>
        (\<forall>w \<in> set (warnings r). issue_type w \<noteq> ''undefined_class'')) \<and>
   (\<forall>t \<in> set (generate_rdf_graph now document_id text_content chunks md file_name).
      predicate t = ''rdf:type'' \<longrightarrow>
        startswith (object t) NAMESPACE_ONTO \<and> \<not> startswith (object t) ONTOLOGY_HASH_PREFIX) \<and>
   (no_space document_id \<and> newline \<notin> set now \<longrightarrow>
      check_class_membership
        (group_instances (parse_turtle_simple (serialize_ntriples
           (generate_rdf_graph now document_id text_content chunks md file_name)))) model = [])"
proof -
  let ?g = "generate_rdf_graph now document_id text_content chunks md file_name"
  let ?view = "map (\<lambda>t. (fs (subject t), fp (predicate t), object t)) ?g"
  have objs: "\<forall>(s, p, obj) \<in> set ?view. p = RDF_TYPE \<longrightarrow> \<not> startswith obj ONTOLOGY_HASH_PREFIX"
    using generate_rdf_graph_objects [of now document_id text_content chunks md file_name]
    by (auto dest: builder_object_not_hash)
  have one: "check_class_membership (group_instances ?view) model = []"
    using objs by (rule check_class_membership_triples)
  have two: "\<forall>r. validate_against_ontology ?view model = Inr r \<longrightarrow>
        (\<forall>w \<in> set (warnings r). issue_type w \<noteq> ''undefined_class'')"
  proof (intro allI impI ballI)
    fix r w
    assume v: "validate_against_ontology ?view model = Inr r" and w: "w \<in> set (warnings r)"
    from v have "warnings r = check_class_membership (group_instances ?view) model @
        check_property_domains (group_instances ?view) model"
      by (auto simp: validate_against_ontology_def Let_def split: sum.splits)
    with w one have "w \<in> set (check_property_domains (group_instances ?view) model)"
      by simp
    then have "issue_type w = ''domain_mismatch''"
      by (rule check_property_domains_kind)
    then show "issue_type w \<noteq> ''undefined_class''"
      by simp
  qed
  have rdf: "''rdf:type'' \<notin> set builder_properties"
    by (simp add: builder_properties_def NAMESPACE_ONTO_def NAMESPACE_BASE_def)
  have three: "\<forall>t \<in> set ?g. predicate t = ''rdf:type'' \<longrightarrow>
        startswith (object t) NAMESPACE_ONTO \<and> \<not> startswith (object t) ONTOLOGY_HASH_PREFIX"
    using builder_triple_kinds [of now document_id text_content chunks md file_name]
      builder_classes_read_back rdf
    by (auto simp: list_all_iff)
  have four: "no_space document_id \<and> newline \<notin> set now \<longrightarrow>
      check_class_membership (group_instances (parse_turtle_simple (serialize_ntriples ?g))) model = []"
  proof
    assume c: "no_space document_id \<and> newline \<notin> set now"
    then have p: "parse_turtle_simple (serialize_ntriples ?g) = map roundtrip_triple ?g"
      by (intro parse_serialize_ntriples generate_rdf_graph_clean) simp_all
    have "\<forall>(s, p, obj) \<in> set (map roundtrip_triple ?g).
        p = RDF_TYPE \<longrightarrow> \<not> startswith obj ONTOLOGY_HASH_PREFIX"
    proof (clarify)
      fix s obj
      assume m: "(s, RDF_TYPE, obj) \<in> set (map roundtrip_triple ?g)"
        and h: "startswith obj ONTOLOGY_HASH_PREFIX"
      from m obtain t where t: "t \<in> set ?g" and r: "roundtrip_triple t = (s, RDF_TYPE, obj)"
        by auto
      from builder_triple_kinds t
      have "(predicate t = ''rdf:type'' \<and> object t \<in> set builder_classes) \<or>
          predicate t \<in> set builder_properties"
        by blast
      from roundtrip_builder_triple [OF this] r h show False by simp
    qed
    then show "check_class_membership
        (group_instances (parse_turtle_simple (serialize_ntriples ?g))) model = []"
      unfolding p by (rule check_class_membership_triples)
  qed
  show ?thesis
    by (intro conjI) (fact one two three four)+
qed

theorem builder_types_never_undefined_witness:
  "check_class_membership
     (group_instances (parse_turtle_simple (serialize_ntriples
        (generate_rdf_graph ''2020-01-01T00:00:00'' ''doc-1'' ''Hello Acme'' []
           \<lparr>keywords_field = Some ''alpha'', documentType = None, author = None\<rparr> ''f.txt''))))
     \<lparr>classes = [\<lparr>class_uri = ''http://graph-rag.example.com/ontology#Document'', subClassOf = None\<rparr>],
      properties = [], restrictions = []\<rparr> = []"
proof -
  have a: "no_space ''doc-1'' \<and> newline \<notin> set ''2020-01-01T00:00:00''"
    by (simp add: is_space_def ord_def newline_def)
  note inst = builder_types_never_undefined [of _ _ "''2020-01-01T00:00:00''" "''doc-1''"
      "''Hello Acme''" "[]" "\<lparr>keywords_field = Some ''alpha'', documentType = None, author = None\<rparr>"
      "''f.txt''"
      "\<lparr>classes = [\<lparr>class_uri = ''http://graph-rag.example.com/ontology#Document'', subClassOf = None\<rparr>],
      properties = [], restrictions = []\<rparr>"]
  from inst [THEN conjunct2, THEN conjunct2, THEN conjunct2] a show ?thesis
    by (rule mp)
qed

end
